theory Spec2Isabelle
  imports Complex_Main
begin

section \<open>JavaScript numbers\<close>

text \<open>
  The generators and the comparison analyzer compute with JavaScript numbers (IEEE 754
  doubles). A finite double is modelled by the real number it denotes, and \<open>+\<close>, \<open>-\<close>,
  \<open>*\<close>, \<open>/\<close> are exact on finite operands: rounding is idealised away and the two zeros
  are identified. The generators apply them to lengths, counts, probabilities and
  entropies, which stay far below the largest double. The three special values are kept,
  with the propagation rules of ECMAScript, because the code reaches them:
  \<open>Math.log2(0)\<close> is \<open>-Infinity\<close>, \<open>0 * -Infinity\<close> and \<open>0 / 0\<close> are \<open>NaN\<close>. Lengths,
  counts and indices are natural numbers.

  Overflow is modelled where the program reaches the largest double: in \<open>Math.pow\<close> (the
  estimators raise 2 to the entropy, and the size of the character set to the length), and
  in the arithmetic of the comparison analyzer, which adds up cracking times. There a
  finite result whose magnitude is \<open>2^1024 - 2^970\<close> or more, the reals that round to
  \<open>Infinity\<close>, becomes \<open>Infinity\<close> or \<open>-Infinity\<close>.
\<close>

datatype jsnum = Fin real | PInf | NInf | NaN

definition overflow_limit :: real where
  "overflow_limit = 2 ^ 1024 - 2 ^ 970"

fun overflow :: "jsnum \<Rightarrow> jsnum" where
  "overflow (Fin a) =
     (if overflow_limit \<le> a then PInf else if a \<le> - overflow_limit then NInf else Fin a)"
| "overflow x = x"

fun js_neg :: "jsnum \<Rightarrow> jsnum" where
  "js_neg (Fin a) = Fin (- a)"
| "js_neg PInf = NInf"
| "js_neg NInf = PInf"
| "js_neg NaN = NaN"

fun js_add :: "jsnum \<Rightarrow> jsnum \<Rightarrow> jsnum" where
  "js_add (Fin a) (Fin b) = Fin (a + b)"
| "js_add (Fin a) PInf = PInf"
| "js_add (Fin a) NInf = NInf"
| "js_add PInf (Fin b) = PInf"
| "js_add PInf PInf = PInf"
| "js_add PInf NInf = NaN"
| "js_add NInf (Fin b) = NInf"
| "js_add NInf NInf = NInf"
| "js_add NInf PInf = NaN"
| "js_add NaN y = NaN"
| "js_add x NaN = NaN"

definition js_sub :: "jsnum \<Rightarrow> jsnum \<Rightarrow> jsnum" where
  "js_sub x y = js_add x (js_neg y)"

fun js_mul :: "jsnum \<Rightarrow> jsnum \<Rightarrow> jsnum" where
  "js_mul (Fin a) (Fin b) = Fin (a * b)"
| "js_mul (Fin a) PInf = (if a = 0 then NaN else if 0 < a then PInf else NInf)"
| "js_mul (Fin a) NInf = (if a = 0 then NaN else if 0 < a then NInf else PInf)"
| "js_mul PInf (Fin b) = (if b = 0 then NaN else if 0 < b then PInf else NInf)"
| "js_mul NInf (Fin b) = (if b = 0 then NaN else if 0 < b then NInf else PInf)"
| "js_mul PInf PInf = PInf"
| "js_mul PInf NInf = NInf"
| "js_mul NInf PInf = NInf"
| "js_mul NInf NInf = PInf"
| "js_mul NaN y = NaN"
| "js_mul x NaN = NaN"

text \<open>Division by zero is division by \<open>+0\<close>: the code never produces a negative zero
  denominator.\<close>

fun js_div :: "jsnum \<Rightarrow> jsnum \<Rightarrow> jsnum" where
  "js_div (Fin a) (Fin b) =
     (if b \<noteq> 0 then Fin (a / b)
      else if a = 0 then NaN else if 0 < a then PInf else NInf)"
| "js_div (Fin a) PInf = Fin 0"
| "js_div (Fin a) NInf = Fin 0"
| "js_div PInf (Fin b) = (if 0 \<le> b then PInf else NInf)"
| "js_div NInf (Fin b) = (if 0 \<le> b then NInf else PInf)"
| "js_div PInf PInf = NaN"
| "js_div PInf NInf = NaN"
| "js_div NInf PInf = NaN"
| "js_div NInf NInf = NaN"
| "js_div NaN y = NaN"
| "js_div x NaN = NaN"

text \<open>The comparisons \<open><\<close>, \<open>>\<close>, \<open>>=\<close>, \<open><=\<close>: false as soon as an operand is \<open>NaN\<close>.\<close>

fun js_lt :: "jsnum \<Rightarrow> jsnum \<Rightarrow> bool" where
  "js_lt (Fin a) (Fin b) = (a < b)"
| "js_lt (Fin a) PInf = True"
| "js_lt NInf (Fin b) = True"
| "js_lt NInf PInf = True"
| "js_lt x y = False"

definition js_gt :: "jsnum \<Rightarrow> jsnum \<Rightarrow> bool" where
  "js_gt x y = js_lt y x"

fun js_ge :: "jsnum \<Rightarrow> jsnum \<Rightarrow> bool" where
  "js_ge NaN y = False"
| "js_ge x NaN = False"
| "js_ge x y = (\<not> js_lt x y)"

fun js_le :: "jsnum \<Rightarrow> jsnum \<Rightarrow> bool" where
  "js_le NaN y = False"
| "js_le x NaN = False"
| "js_le x y = (\<not> js_lt y x)"

text \<open>\<open>Math.max\<close> and \<open>Math.min\<close> of two arguments, \<open>Math.log2\<close>, \<open>Math.sqrt\<close>,
  \<open>Math.ceil\<close>.\<close>

fun js_max :: "jsnum \<Rightarrow> jsnum \<Rightarrow> jsnum" where
  "js_max NaN y = NaN"
| "js_max x NaN = NaN"
| "js_max x y = (if js_lt x y then y else x)"

fun js_min :: "jsnum \<Rightarrow> jsnum \<Rightarrow> jsnum" where
  "js_min NaN y = NaN"
| "js_min x NaN = NaN"
| "js_min x y = (if js_lt y x then y else x)"

fun js_log2 :: "jsnum \<Rightarrow> jsnum" where
  "js_log2 (Fin a) = (if 0 < a then Fin (log 2 a) else if a = 0 then NInf else NaN)"
| "js_log2 PInf = PInf"
| "js_log2 NInf = NaN"
| "js_log2 NaN = NaN"

fun js_sqrt :: "jsnum \<Rightarrow> jsnum" where
  "js_sqrt (Fin a) = (if 0 \<le> a then Fin (sqrt a) else NaN)"
| "js_sqrt PInf = PInf"
| "js_sqrt NInf = NaN"
| "js_sqrt NaN = NaN"

fun js_ceil :: "jsnum \<Rightarrow> jsnum" where
  "js_ceil (Fin a) = Fin (of_int \<lceil>a\<rceil>)"
| "js_ceil x = x"

text \<open>\<open>Math.pow(base, exponent)\<close>, case by case as ECMAScript's Number::exponentiate
  lists them.\<close>

definition is_odd_integer :: "real \<Rightarrow> bool" where
  "is_odd_integer e = (e = of_int \<lfloor>e\<rfloor> \<and> odd \<lfloor>e\<rfloor>)"

fun js_pow :: "jsnum \<Rightarrow> jsnum \<Rightarrow> jsnum" where
  "js_pow b NaN = NaN"
| "js_pow NaN (Fin e) = (if e = 0 then Fin 1 else NaN)"
| "js_pow NaN PInf = NaN"
| "js_pow NaN NInf = NaN"
| "js_pow PInf (Fin e) = (if e = 0 then Fin 1 else if 0 < e then PInf else Fin 0)"
| "js_pow PInf PInf = PInf"
| "js_pow PInf NInf = Fin 0"
| "js_pow NInf (Fin e) =
     (if e = 0 then Fin 1
      else if 0 < e then (if is_odd_integer e then NInf else PInf)
      else Fin 0)"
| "js_pow NInf PInf = PInf"
| "js_pow NInf NInf = Fin 0"
| "js_pow (Fin b) PInf =
     (if 1 < \<bar>b\<bar> then PInf else if \<bar>b\<bar> = 1 then NaN else Fin 0)"
| "js_pow (Fin b) NInf =
     (if 1 < \<bar>b\<bar> then Fin 0 else if \<bar>b\<bar> = 1 then NaN else PInf)"
| "js_pow (Fin b) (Fin e) =
     (if e = 0 then Fin 1
      else if b = 0 then (if 0 < e then Fin 0 else PInf)
      else if 0 < b then overflow (Fin (b powr e))
      else if e = of_int \<lfloor>e\<rfloor> then overflow (Fin (b powi \<lfloor>e\<rfloor>))
      else NaN)"

definition is_finite :: "jsnum \<Rightarrow> bool" where
  "is_finite x = (case x of Fin a \<Rightarrow> True | _ \<Rightarrow> False)"

text \<open>\<open>xs.reduce((sum, x) => sum + x, 0)\<close>.\<close>

definition js_sum :: "jsnum list \<Rightarrow> jsnum" where
  "js_sum xs = foldl js_add (Fin 0) xs"

text \<open>The four operations and the \<open>reduce\<close> with the overflow of their result, as the
  comparison analyzer needs them.\<close>

definition js_plus :: "jsnum \<Rightarrow> jsnum \<Rightarrow> jsnum" where
  "js_plus x y = overflow (js_add x y)"

definition js_minus :: "jsnum \<Rightarrow> jsnum \<Rightarrow> jsnum" where
  "js_minus x y = overflow (js_sub x y)"

definition js_times :: "jsnum \<Rightarrow> jsnum \<Rightarrow> jsnum" where
  "js_times x y = overflow (js_mul x y)"

definition js_over :: "jsnum \<Rightarrow> jsnum \<Rightarrow> jsnum" where
  "js_over x y = overflow (js_div x y)"

definition js_total :: "jsnum list \<Rightarrow> jsnum" where
  "js_total xs = foldl js_plus (Fin 0) xs"

section \<open>Characters and the generation configuration\<close>

text \<open>
  A JavaScript string is a sequence of UTF-16 code units; \<open>split("")\<close>, indexing and
  \<open>length\<close> all work on code units. A \<open>char\<close> here is one code unit below 256 (the
  Latin-1 range), which holds every character the two generators can emit.
\<close>

definition code :: "char \<Rightarrow> nat" where
  "code c = of_char c"

text \<open>\<open>toLowerCase\<close> on one code unit of the Latin-1 range.\<close>

definition toLowerCase :: "char \<Rightarrow> char" where
  "toLowerCase c =
     (let n = code c in
      if (65 \<le> n \<and> n \<le> 90) \<or> (192 \<le> n \<and> n \<le> 222 \<and> n \<noteq> 215) then char_of (n + 32) else c)"

record config =
  length_of :: nat
  includeUppercase :: bool
  includeLowercase :: bool
  includeNumbers :: bool
  includeSymbols :: bool
  avoidSimilar :: bool
  avoidAmbiguous :: bool

definition lowercase :: string where
  "lowercase = ''abcdefghijklmnopqrstuvwxyz''"

definition uppercase :: string where
  "uppercase = ''ABCDEFGHIJKLMNOPQRSTUVWXYZ''"

definition numbers :: string where
  "numbers = ''0123456789''"

definition symbols :: string where
  "symbols = ''!@#$%^&*()_+-=[]{}|;:,.<>?''"

definition similarChars :: string where
  "similarChars = ''0O1lI''"

text \<open>The source literal is \<open>{}[]()/\<close>, backslash, single quote, double quote,
  backtick, \<open>~,;.<>\<close>.\<close>

definition ambiguousChars :: string where
  "ambiguousChars = ''{}[]()/'' @ [CHR 0x5C, CHR 0x27, CHR 0x22, CHR 0x60] @ ''~,;.<>''"

section \<open>The security estimator\<close>

text \<open>\<open>new Set(password.split("")).size\<close>: the number of distinct code units.\<close>

definition getCharacterSetSizeFromPassword :: "string \<Rightarrow> nat" where
  "getCharacterSetSizeFromPassword password = length (remdups password)"

text \<open>The four regular expressions of \<open>calculateEntropy\<close>: \<open>/[a-z]/\<close>, \<open>/[A-Z]/\<close>,
  \<open>/[0-9]/\<close>, \<open>/[^a-zA-Z0-9]/\<close>, each matched against one code unit.\<close>

definition re_lower :: "char \<Rightarrow> bool" where
  "re_lower c = (97 \<le> code c \<and> code c \<le> 122)"

definition re_upper :: "char \<Rightarrow> bool" where
  "re_upper c = (65 \<le> code c \<and> code c \<le> 90)"

definition re_digit :: "char \<Rightarrow> bool" where
  "re_digit c = (48 \<le> code c \<and> code c \<le> 57)"

definition re_other :: "char \<Rightarrow> bool" where
  "re_other c = (\<not> re_lower c \<and> \<not> re_upper c \<and> \<not> re_digit c)"

definition theoreticalSize :: "string \<Rightarrow> nat" where
  "theoreticalSize password =
     (if list_ex re_lower password then 26 else 0)
   + (if list_ex re_upper password then 26 else 0)
   + (if list_ex re_digit password then 10 else 0)
   + (if list_ex re_other password then 32 else 0)"

text \<open>\<open>calculateEntropy\<close> is the same text in both generator classes.\<close>

definition calculateEntropy :: "string \<Rightarrow> jsnum" where
  "calculateEntropy password =
     (let charsetSize = getCharacterSetSizeFromPassword password in
      if charsetSize < 26 then
        js_mul (Fin (real (length password)))
          (js_log2 (js_max (Fin (real charsetSize)) (Fin (real (theoreticalSize password)))))
      else js_mul (Fin (real (length password))) (js_log2 (Fin (real charsetSize))))"

record crack_time =
  seconds :: jsnum
  minutes :: jsnum
  hours :: jsnum
  days :: jsnum
  years :: jsnum

definition timeBreakdown :: "jsnum \<Rightarrow> crack_time" where
  "timeBreakdown timeInSeconds =
     \<lparr> seconds = timeInSeconds,
       minutes = js_div timeInSeconds (Fin 60),
       hours = js_div timeInSeconds (Fin 3600),
       days = js_div timeInSeconds (Fin 86400),
       years = js_div timeInSeconds (js_mul (Fin 365.25) (Fin 86400)) \<rparr>"

text \<open>\<open>RandomPasswordGenerator.calculateTimeToCrack(entropy)\<close>.\<close>

definition random_calculateTimeToCrack :: "jsnum \<Rightarrow> crack_time" where
  "random_calculateTimeToCrack entropy =
     (let combinations = js_pow (Fin 2) entropy;
          fast = js_pow (Fin 10) (Fin 12)
      in timeBreakdown (js_div combinations fast))"

text \<open>\<open>getCharacterSetSize(config)\<close>: the lengths of the enabled category strings.\<close>

definition getCharacterSetSize :: "config \<Rightarrow> nat" where
  "getCharacterSetSize cfg =
     (if includeLowercase cfg then length lowercase else 0)
   + (if includeUppercase cfg then length uppercase else 0)
   + (if includeNumbers cfg then length numbers else 0)
   + (if includeSymbols cfg then length symbols else 0)"

datatype strength = VeryWeak | Weak | Average | Strong | VeryStrong

definition determineStrengthLevel :: "jsnum \<Rightarrow> strength" where
  "determineStrengthLevel entropy =
     (if js_lt entropy (Fin 30) then VeryWeak
      else if js_lt entropy (Fin 40) then Weak
      else if js_lt entropy (Fin 50) then Average
      else if js_lt entropy (Fin 60) then Strong
      else VeryStrong)"

section \<open>The Markov model and its training\<close>

text \<open>
  A JavaScript \<open>Map\<close> keeps its keys in insertion order, and the samplers walk the maps
  in that order: a map is an association list with distinct keys, \<open>map_of\<close> is \<open>get\<close>,
  and \<open>map_set\<close> is \<open>set\<close> (a known key keeps its place, a new key goes last).
\<close>

fun map_set :: "('k \<times> 'v) list \<Rightarrow> 'k \<Rightarrow> 'v \<Rightarrow> ('k \<times> 'v) list" where
  "map_set [] k v = [(k, v)]"
| "map_set ((k', v') # m) k v =
     (if k' = k then (k, v) # m else (k', v') # map_set m k v)"

record markov_state =
  model :: "(string \<times> (char \<times> jsnum) list) list"
  startStates :: "(string \<times> jsnum) list"
  order :: nat
  trainingData :: "string list"

text \<open>\<open>m.get(k) || 0\<close>: a missing entry, \<open>0\<close> and \<open>NaN\<close> are falsy.\<close>

definition or_zero :: "jsnum option \<Rightarrow> jsnum" where
  "or_zero v = (case v of None \<Rightarrow> Fin 0 | Some NaN \<Rightarrow> Fin 0 | Some x \<Rightarrow> x)"

text \<open>\<open>m.set(k, (m.get(k) || 0) + 1)\<close>.\<close>

definition bump :: "('k \<times> jsnum) list \<Rightarrow> 'k \<Rightarrow> ('k \<times> jsnum) list" where
  "bump m k = map_set m k (js_add (or_zero (map_of m k)) (Fin 1))"

text \<open>One pass of the inner loop body of \<open>trainModel\<close>: a state seen for the first time
  gets a fresh transition map, then the count of \<open>nextChar\<close> is bumped in the state's
  map.\<close>

definition recordTransition ::
  "(string \<times> (char \<times> jsnum) list) list \<Rightarrow> string \<Rightarrow> char \<Rightarrow> (string \<times> (char \<times> jsnum) list) list"
where
  "recordTransition m currentState nextChar =
     (case map_of m currentState of
        None \<Rightarrow> map_set m currentState (bump [] nextChar)
      | Some transitions \<Rightarrow> map_set m currentState (bump transitions nextChar))"

text \<open>The loop \<open>for (let i = 0; i < password.length - order; i++)\<close>; \<open>password[i + order]\<close>
  is read in range there, and the \<open>if (!nextChar) continue\<close> of the source is the
  \<open>else\<close> branch.\<close>

definition recordTransitions ::
  "nat \<Rightarrow> string \<Rightarrow> (string \<times> (char \<times> jsnum) list) list \<Rightarrow> (string \<times> (char \<times> jsnum) list) list"
where
  "recordTransitions ord password m =
     fold (\<lambda>i m'. if i + ord < length password
                   then recordTransition m' (take ord (drop i password)) (password ! (i + ord))
                   else m')
          [0..<length password - ord] m"

text \<open>The body of \<open>for (const password of passwords)\<close>, on the pair of the two maps.\<close>

definition trainOne ::
  "nat \<Rightarrow> string \<Rightarrow> (string \<times> (char \<times> jsnum) list) list \<times> (string \<times> jsnum) list
     \<Rightarrow> (string \<times> (char \<times> jsnum) list) list \<times> (string \<times> jsnum) list"
where
  "trainOne ord password ms =
     (if length password < ord + 1 then ms
      else (recordTransitions ord password (fst ms), bump (snd ms) (take ord password)))"

text \<open>Counts to probabilities: every count of a map is divided by the sum of the map's
  counts.\<close>

definition normalize_map :: "('k \<times> jsnum) list \<Rightarrow> ('k \<times> jsnum) list" where
  "normalize_map m =
     (let total = js_sum (map snd m) in map (\<lambda>(k, count). (k, js_div count total)) m)"

definition normalizeProbabilities :: "markov_state \<Rightarrow> markov_state" where
  "normalizeProbabilities st =
     st\<lparr> model := map (\<lambda>(state, transitions). (state, normalize_map transitions)) (model st),
         startStates := normalize_map (startStates st) \<rparr>"

text \<open>\<open>trainModel\<close> takes the generator's state before the call: it overwrites \<open>order\<close>
  and \<open>trainingData\<close> and clears both maps before it counts.\<close>

definition trainModel :: "markov_state \<Rightarrow> string list \<Rightarrow> nat \<Rightarrow> markov_state" where
  "trainModel st passwords ord =
     (let cleared = st\<lparr> order := ord, trainingData := passwords, model := [], startStates := [] \<rparr>;
          counted = fold (trainOne ord) passwords (model cleared, startStates cleared)
      in normalizeProbabilities (cleared\<lparr> model := fst counted, startStates := snd counted \<rparr>))"

text \<open>A freshly constructed generator.\<close>

definition initial_state :: markov_state where
  "initial_state = \<lparr> model = [], startStates = [], order = 1, trainingData = [] \<rparr>"

text \<open>The sum of a map's values is within \<open>1e-9\<close> of one.\<close>

definition sums_to_one :: "('k \<times> jsnum) list \<Rightarrow> bool" where
  "sums_to_one m = (case js_sum (map snd m) of Fin s \<Rightarrow> \<bar>s - 1\<bar> \<le> 1 / 10 ^ 9 | _ \<Rightarrow> False)"

text \<open>Every value of a map is a count: a finite number, at least one.\<close>

definition counts_ok :: "('k \<times> jsnum) list \<Rightarrow> bool" where
  "counts_ok m = list_all (\<lambda>kv. case snd kv of Fin c \<Rightarrow> 1 \<le> c | _ \<Rightarrow> False) m"

text \<open>Every state of a count table has a transition map that is not empty and holds
  counts.\<close>

definition rows_ok :: "(string \<times> (char \<times> jsnum) list) list \<Rightarrow> bool" where
  "rows_ok m = (\<forall>(s, tr)\<in>set m. tr \<noteq> [] \<and> counts_ok tr)"

section \<open>Generated passwords\<close>

datatype generation_method = Heuristic | Markov

record generated_password =
  password :: string
  entropy :: jsnum
  timeToCrack :: crack_time
  strengthLevel :: strength
  generationMethod :: generation_method

section \<open>The random source\<close>

text \<open>
  \<open>Math.random()\<close> is a global source of numbers in \<open>[0, 1)\<close>. A run of the program
  reads a sequence of draws: the sequence is a parameter \<open>rs\<close>, every function that
  draws takes the position \<open>i\<close> of the next draw and returns the position after its last
  one. The properties are stated for every sequence of valid draws.
\<close>

type_synonym draws = "nat \<Rightarrow> real"

definition valid_draws :: "draws \<Rightarrow> bool" where
  "valid_draws rs = (\<forall>i. 0 \<le> rs i \<and> rs i < 1)"

text \<open>\<open>Math.floor(Math.random() * n)\<close>: below \<open>n\<close> for a valid draw and \<open>n > 0\<close>.\<close>

definition randomIndex :: "draws \<Rightarrow> nat \<Rightarrow> nat \<Rightarrow> nat" where
  "randomIndex rs i n = nat \<lfloor>rs i * real n\<rfloor>"

text \<open>The sequence of draws that are all \<open>r\<close>.\<close>

definition constant_draws :: "real \<Rightarrow> draws" where
  "constant_draws r = (\<lambda>i. r)"

datatype gen_error = ModelNotTrained | NoAllowedCharacters | NoCharacterSet

section \<open>The heuristic random generator\<close>

text \<open>\<open>s.split("").filter((char) => !excluded.includes(char)).join("")\<close>.\<close>

definition without :: "string \<Rightarrow> string \<Rightarrow> string" where
  "without excluded s = filter (\<lambda>char. char \<notin> set excluded) s"

text \<open>The character set of the flags, before any exclusion.\<close>

definition configuredCharset :: "config \<Rightarrow> string" where
  "configuredCharset cfg =
     (if includeLowercase cfg then lowercase else [])
   @ (if includeUppercase cfg then uppercase else [])
   @ (if includeNumbers cfg then numbers else [])
   @ (if includeSymbols cfg then symbols else [])"

text \<open>\<open>k\<close> passes of \<open>s += charset[Math.floor(Math.random() * charset.length)]\<close>,
  one draw each. The index is in range for valid draws and a charset that is not
  empty.\<close>

definition drawChars :: "nat \<Rightarrow> string \<Rightarrow> draws \<Rightarrow> nat \<Rightarrow> string" where
  "drawChars k charset rs i = map (\<lambda>j. charset ! randomIndex rs (i + j) (length charset)) [0..<k]"

definition random_generateBasePassword ::
  "config \<Rightarrow> draws \<Rightarrow> nat \<Rightarrow> gen_error + string \<times> nat" where
  "random_generateBasePassword cfg rs i =
     (let charset = configuredCharset cfg;
          charset = (if avoidSimilar cfg then without similarChars charset else charset);
          charset = (if avoidAmbiguous cfg then without ambiguousChars charset else charset)
      in if length charset = 0 then Inl NoCharacterSet
         else Inr (drawChars (length_of cfg) charset rs i, i + length_of cfg))"

text \<open>One of the four repairs of \<open>ensureCharacterCategories\<close>: the test reads \<open>chars\<close>,
  the password as it came in, and the repair writes one character of \<open>result\<close>. The
  position is drawn first, the character second.\<close>

definition replaceAt :: "string \<Rightarrow> nat \<Rightarrow> char \<Rightarrow> string" where
  "replaceAt result randomPos c = take randomPos result @ [c] @ drop (randomPos + 1) result"

definition repairCategory ::
  "bool \<Rightarrow> string \<Rightarrow> string \<Rightarrow> draws \<Rightarrow> string \<times> nat \<Rightarrow> string \<times> nat" where
  "repairCategory required category chars rs st =
     (let result = fst st; i = snd st in
      if required \<and> \<not> list_ex (\<lambda>c. c \<in> set category) chars then
        (let randomPos = randomIndex rs i (length result);
             c = category ! randomIndex rs (i + 1) (length category)
         in (replaceAt result randomPos c, i + 2))
      else (result, i))"

definition random_ensureCharacterCategories ::
  "string \<Rightarrow> config \<Rightarrow> draws \<Rightarrow> nat \<Rightarrow> string \<times> nat" where
  "random_ensureCharacterCategories pw cfg rs i =
     repairCategory (includeSymbols cfg) symbols pw rs
       (repairCategory (includeNumbers cfg) numbers pw rs
         (repairCategory (includeLowercase cfg) lowercase pw rs
           (repairCategory (includeUppercase cfg) uppercase pw rs (pw, i))))"

definition getAlternativeChars :: "char \<Rightarrow> string" where
  "getAlternativeChars c =
     (if c \<in> set lowercase then lowercase
      else if c \<in> set uppercase then uppercase
      else if c \<in> set numbers then numbers
      else if c \<in> set symbols then symbols
      else lowercase @ uppercase @ numbers @ symbols)"

text \<open>
  \<open>result.replace(/(.)\1{2,}/g, ...)\<close>: scanning from the left, a character that is not
  a line terminator and is followed by at least two copies of itself starts a match,
  which takes the whole run; the callback keeps the first character and draws every other
  one from the alternatives of the repeated character. The scan goes on after the match.
\<close>

definition dot_matches :: "char \<Rightarrow> bool" where
  "dot_matches c = (code c \<noteq> 10 \<and> code c \<noteq> 13)"

function breakCommonPatterns :: "string \<Rightarrow> draws \<Rightarrow> nat \<Rightarrow> string \<times> nat" where
  "breakCommonPatterns [] rs i = ([], i)"
| "breakCommonPatterns (c # rest) rs i =
     (let n = length (takeWhile (\<lambda>x. x = c) rest) in
      if dot_matches c \<and> 2 \<le> n then
        (let replacement = c # drawChars n (getAlternativeChars c) rs i;
             tail = breakCommonPatterns (drop n rest) rs (i + n)
         in (replacement @ fst tail, snd tail))
      else
        (let tail = breakCommonPatterns rest rs i in (c # fst tail, snd tail)))"
  by pat_completeness auto
termination
  by (relation "measure (\<lambda>(pw, rs, i). length pw)") auto

definition isAlphaSequential :: "char \<Rightarrow> char \<Rightarrow> char \<Rightarrow> bool" where
  "isAlphaSequential char1 char2 char3 =
     (let code1 = code (toLowerCase char1);
          code2 = code (toLowerCase char2);
          code3 = code (toLowerCase char3)
      in code2 = code1 + 1 \<and> code3 = code2 + 1)"

text \<open>\<open>parseInt\<close> of a one-character string: the digit's value, or \<open>NaN\<close> (here
  \<open>None\<close>).\<close>

definition parseInt :: "char \<Rightarrow> nat option" where
  "parseInt c = (if re_digit c then Some (code c - 48) else None)"

definition isNumericSequential :: "char \<Rightarrow> char \<Rightarrow> char \<Rightarrow> bool" where
  "isNumericSequential char1 char2 char3 =
     (case (parseInt char1, parseInt char2, parseInt char3) of
        (Some num1, Some num2, Some num3) \<Rightarrow> num2 = num1 + 1 \<and> num3 = num2 + 1
      | _ \<Rightarrow> False)"

definition isSequential :: "char \<Rightarrow> char \<Rightarrow> char \<Rightarrow> bool" where
  "isSequential char1 char2 char3 =
     (isAlphaSequential char1 char2 char3 \<or> isNumericSequential char1 char2 char3)"

text \<open>The loop \<open>for (let i = 0; i < chars.length - 2; i++)\<close> of
  \<open>avoidSequentialChars\<close>, from position \<open>k\<close> on; it reads the array it has already
  changed.\<close>

function avoidSequentialFrom :: "nat \<Rightarrow> string \<Rightarrow> draws \<Rightarrow> nat \<Rightarrow> string \<times> nat" where
  "avoidSequentialFrom k chars rs i =
     (if k + 2 < length chars then
        (if isSequential (chars ! k) (chars ! (k + 1)) (chars ! (k + 2)) then
           (let alternatives = getAlternativeChars (chars ! (k + 1));
                randomChar = alternatives ! randomIndex rs i (length alternatives)
            in avoidSequentialFrom (k + 1) (chars[k + 1 := randomChar]) rs (i + 1))
         else avoidSequentialFrom (k + 1) chars rs i)
      else (chars, i))"
  by pat_completeness auto
termination
  by (relation "measure (\<lambda>(k, chars, rs, i). length chars - k)") auto

definition avoidSequentialChars :: "string \<Rightarrow> draws \<Rightarrow> nat \<Rightarrow> string \<times> nat" where
  "avoidSequentialChars pw rs i = avoidSequentialFrom 0 pw rs i"

text \<open>\<open>Math.ceil(60 / Math.log2(this.getCharacterSetSize(config)))\<close>.\<close>

definition neededLength :: "config \<Rightarrow> jsnum" where
  "neededLength cfg = js_ceil (js_div (Fin 60) (js_log2 (Fin (real (getCharacterSetSize cfg)))))"

text \<open>The number of passes of \<open>for (let i = 0; i < bound; i++)\<close>; the loop does not end
  for an infinite bound.\<close>

definition loop_count :: "jsnum \<Rightarrow> nat option" where
  "loop_count bound =
     (case bound of Fin x \<Rightarrow> Some (nat \<lceil>x\<rceil>) | PInf \<Rightarrow> None | NInf \<Rightarrow> Some 0 | NaN \<Rightarrow> Some 0)"

definition random_addEntropy ::
  "string \<Rightarrow> config \<Rightarrow> draws \<Rightarrow> nat \<Rightarrow> (string \<times> nat) option" where
  "random_addEntropy pw cfg rs i =
     (if js_lt (calculateEntropy pw) (Fin 60) then
        (let additionalLength = js_max (Fin 0) (js_sub (neededLength cfg) (Fin (real (length pw))));
             charset = configuredCharset cfg
         in case loop_count additionalLength of
              None \<Rightarrow> None
            | Some k \<Rightarrow> Some (pw @ drawChars k charset rs i, i + k))
      else Some (pw, i))"

definition applyHeuristics ::
  "string \<Rightarrow> config \<Rightarrow> draws \<Rightarrow> nat \<Rightarrow> (string \<times> nat) option" where
  "applyHeuristics pw cfg rs i =
     (let s1 = random_ensureCharacterCategories pw cfg rs i;
          s2 = breakCommonPatterns (fst s1) rs (snd s1);
          s3 = avoidSequentialChars (fst s2) rs (snd s2)
      in if js_lt (calculateEntropy (fst s3)) (Fin 60)
         then random_addEntropy (fst s3) cfg rs (snd s3)
         else Some s3)"

text \<open>\<open>RandomPasswordGenerator.generatePassword\<close>. \<open>None\<close>: the call does not
  return.\<close>

definition random_generatePassword ::
  "config \<Rightarrow> draws \<Rightarrow> nat \<Rightarrow> (gen_error + generated_password) option" where
  "random_generatePassword cfg rs i =
     (case random_generateBasePassword cfg rs i of
        Inl e \<Rightarrow> Some (Inl e)
      | Inr base \<Rightarrow>
          (case applyHeuristics (fst base) cfg rs (snd base) of
             None \<Rightarrow> None
           | Some improved \<Rightarrow>
               (let pw = fst improved; e = calculateEntropy pw in
                Some (Inr \<lparr> password = pw, entropy = e,
                            timeToCrack = random_calculateTimeToCrack e,
                            strengthLevel = determineStrengthLevel e,
                            generationMethod = Heuristic \<rparr>))))"

section \<open>The Markov generator\<close>

subsection \<open>Character policy\<close>

text \<open>The tests compare one-character strings with \<open>"A"\<close>, \<open>"Z"\<close> and so on, which is
  a comparison of code units.\<close>

definition isUppercase :: "char \<Rightarrow> bool" where
  "isUppercase c = (65 \<le> code c \<and> code c \<le> 90)"

definition isLowercase :: "char \<Rightarrow> bool" where
  "isLowercase c = (97 \<le> code c \<and> code c \<le> 122)"

definition isNumber :: "char \<Rightarrow> bool" where
  "isNumber c = (48 \<le> code c \<and> code c \<le> 57)"

definition isSymbol :: "char \<Rightarrow> bool" where
  "isSymbol c = (\<not> isUppercase c \<and> \<not> isLowercase c \<and> \<not> isNumber c)"

datatype char_type = TUppercase | TLowercase | TNumbers | TSymbols

definition getCharacterType :: "char \<Rightarrow> char_type option" where
  "getCharacterType c =
     (if isUppercase c then Some TUppercase
      else if isLowercase c then Some TLowercase
      else if isNumber c then Some TNumbers
      else if isSymbol c then Some TSymbols
      else None)"

definition getLowercaseChars :: string where
  "getLowercaseChars = map (\<lambda>i. char_of (97 + i)) [0..<26]"

definition getUppercaseChars :: string where
  "getUppercaseChars = map (\<lambda>i. char_of (65 + i)) [0..<26]"

definition getNumberChars :: string where
  "getNumberChars = map (\<lambda>i. char_of (48 + i)) [0..<10]"

definition getSymbolChars :: string where
  "getSymbolChars = ''!@#$%^&*()_+-=[]{}|;:,.<>?''"

definition filterCharsForConfig :: "string \<Rightarrow> config \<Rightarrow> string" where
  "filterCharsForConfig chars cfg =
     (let filtered = chars;
          filtered = (if avoidSimilar cfg then without similarChars filtered else filtered);
          filtered = (if avoidAmbiguous cfg then without ambiguousChars filtered else filtered)
      in filtered)"

definition buildAllowedCharacterPool :: "config \<Rightarrow> string" where
  "buildAllowedCharacterPool cfg =
     (let pool = (if includeLowercase cfg then getLowercaseChars else [])
               @ (if includeUppercase cfg then getUppercaseChars else [])
               @ (if includeNumbers cfg then getNumberChars else [])
               @ (if includeSymbols cfg then getSymbolChars else []);
          pool = (if length pool = 0 then getLowercaseChars else pool);
          filtered = filterCharsForConfig pool cfg
      in if 0 < length filtered then filtered else pool)"

text \<open>\<open>pool[index] ?? pool[0] ?? "a"\<close>, after the test for an empty pool, which draws
  nothing.\<close>

definition getRandomFromPool :: "string \<Rightarrow> draws \<Rightarrow> nat \<Rightarrow> char \<times> nat" where
  "getRandomFromPool pool rs i =
     (if length pool = 0 then (CHR ''a'', i)
      else (let index = randomIndex rs i (length pool)
            in (if index < length pool then pool ! index else pool ! 0, i + 1)))"

definition getRandomFromChars :: "string \<Rightarrow> config \<Rightarrow> draws \<Rightarrow> nat \<Rightarrow> char \<times> nat" where
  "getRandomFromChars chars cfg rs i =
     (let filtered = filterCharsForConfig chars cfg;
          pool = (if 0 < length filtered then filtered else chars)
      in getRandomFromPool pool rs i)"

definition getRandomCharacter :: "config \<Rightarrow> draws \<Rightarrow> nat \<Rightarrow> char \<times> nat" where
  "getRandomCharacter cfg rs i = getRandomFromPool (buildAllowedCharacterPool cfg) rs i"

text \<open>\<open>k\<close> passes of \<open>s += this.getRandomCharacter(config)\<close>: the characters appended
  and the position after them.\<close>

fun appendRandomCharacters :: "nat \<Rightarrow> config \<Rightarrow> draws \<Rightarrow> nat \<Rightarrow> string \<times> nat" where
  "appendRandomCharacters 0 cfg rs i = ([], i)"
| "appendRandomCharacters (Suc k) cfg rs i =
     (let d = getRandomCharacter cfg rs i;
          rest = appendRandomCharacters k cfg rs (snd d)
      in (fst d # fst rest, snd rest))"

definition markov_getCharacterSetSize :: "config \<Rightarrow> nat" where
  "markov_getCharacterSetSize cfg =
     (if includeLowercase cfg then length getLowercaseChars else 0)
   + (if includeUppercase cfg then length getUppercaseChars else 0)
   + (if includeNumbers cfg then length getNumberChars else 0)
   + (if includeSymbols cfg then length getSymbolChars else 0)"

text \<open>\<open>MarkovPasswordGenerator.calculateTimeToCrack(password, config)\<close>.\<close>

definition markov_calculateTimeToCrack :: "string \<Rightarrow> config \<Rightarrow> crack_time" where
  "markov_calculateTimeToCrack pw cfg =
     (let charsetSize =
            js_max (js_max (Fin (real (markov_getCharacterSetSize cfg)))
                           (Fin (real (getCharacterSetSizeFromPassword pw))))
                   (Fin 1);
          combinations = js_pow charsetSize (Fin (real (length pw)));
          fast = js_pow (Fin 10) (Fin 12)
      in timeBreakdown (js_div combinations fast))"

subsection \<open>Sampling\<close>

text \<open>The walk of both samplers: the running sum of the probabilities, in the map's
  order, and the first key at which the draw is at most the sum.\<close>

fun selectByCumulative :: "('k \<times> jsnum) list \<Rightarrow> jsnum \<Rightarrow> jsnum \<Rightarrow> 'k option" where
  "selectByCumulative [] random cumulative = None"
| "selectByCumulative ((k, probability) # rest) random cumulative =
     (let cumulative' = js_add cumulative probability in
      if js_le random cumulative' then Some k
      else selectByCumulative rest random cumulative')"

text \<open>The fallback is the first key, or \<open>"a"\<close> when there is none or it is the empty
  string (falsy).\<close>

definition selectRandomStartState :: "markov_state \<Rightarrow> draws \<Rightarrow> nat \<Rightarrow> string \<times> nat" where
  "selectRandomStartState st rs i =
     (case selectByCumulative (startStates st) (Fin (rs i)) (Fin 0) of
        Some state \<Rightarrow> (state, i + 1)
      | None \<Rightarrow>
          (case startStates st of
             [] \<Rightarrow> (''a'', i + 1)
           | (firstState, p) # rest \<Rightarrow> (if firstState = [] then ''a'' else firstState, i + 1)))"

text \<open>A state without transitions ends the chain before any draw.\<close>

definition selectNextCharacter ::
  "markov_state \<Rightarrow> string \<Rightarrow> draws \<Rightarrow> nat \<Rightarrow> char option \<times> nat" where
  "selectNextCharacter st currentState rs i =
     (case map_of (model st) currentState of
        None \<Rightarrow> (None, i)
      | Some transitions \<Rightarrow>
          if length transitions = 0 then (None, i)
          else (selectByCumulative transitions (Fin (rs i)) (Fin 0), i + 1))"

text \<open>The loop \<open>while (password.length < maxLength)\<close> of \<open>generateBasePassword\<close>.\<close>

function extendChain ::
  "markov_state \<Rightarrow> nat \<Rightarrow> string \<Rightarrow> string \<Rightarrow> draws \<Rightarrow> nat \<Rightarrow> string \<times> nat" where
  "extendChain st maxLength pw currentState rs i =
     (if length pw < maxLength then
        (case selectNextCharacter st currentState rs i of
           (None, i') \<Rightarrow> (pw, i')
         | (Some nextChar, i') \<Rightarrow>
             extendChain st maxLength (pw @ [nextChar])
               (drop (length (pw @ [nextChar]) - order st) (pw @ [nextChar])) rs i')
      else (pw, i))"
  by pat_completeness auto
termination
  by (relation "measure (\<lambda>(st, maxLength, pw, currentState, rs, i). maxLength - length pw)") auto

definition markov_generateBasePassword ::
  "markov_state \<Rightarrow> config \<Rightarrow> draws \<Rightarrow> nat \<Rightarrow> gen_error + string \<times> nat" where
  "markov_generateBasePassword st cfg rs i =
     (if length (model st) = 0 then Inl ModelNotTrained
      else (let start = selectRandomStartState st rs i;
                chain = extendChain st (length_of cfg) (fst start) (fst start) rs (snd start);
                padding = appendRandomCharacters (length_of cfg - length (fst chain)) cfg rs (snd chain)
            in Inr (fst chain @ fst padding, snd padding)))"

subsection \<open>Post-processing\<close>

text \<open>The \<open>map\<close> of \<open>sanitizeToAllowedCharacters\<close>, left to right: a character of the
  pool stays, any other is replaced by a drawn one.\<close>

fun sanitizeChars :: "string \<Rightarrow> string \<Rightarrow> draws \<Rightarrow> nat \<Rightarrow> string \<times> nat" where
  "sanitizeChars [] allowedPool rs i = ([], i)"
| "sanitizeChars (c # cs) allowedPool rs i =
     (if c \<in> set allowedPool then
        (let rest = sanitizeChars cs allowedPool rs i in (c # fst rest, snd rest))
      else
        (let d = getRandomFromPool allowedPool rs i;
             rest = sanitizeChars cs allowedPool rs (snd d)
         in (fst d # fst rest, snd rest)))"

definition sanitizeToAllowedCharacters ::
  "string \<Rightarrow> config \<Rightarrow> draws \<Rightarrow> nat \<Rightarrow> gen_error + string \<times> nat" where
  "sanitizeToAllowedCharacters pw cfg rs i =
     (let allowedPool = buildAllowedCharacterPool cfg in
      if length allowedPool = 0 then Inl NoAllowedCharacters
      else (let sanitized = sanitizeChars pw allowedPool rs i
            in Inr (take (length_of cfg) (fst sanitized), snd sanitized)))"

text \<open>\<open>chars[index] = v\<close> on an array: inside the array it overwrites; at the index
  \<open>chars.length\<close> it appends. Valid draws give no index beyond that.\<close>

definition array_set :: "string \<Rightarrow> nat \<Rightarrow> char \<Rightarrow> string" where
  "array_set chars index v = (if index < length chars then chars[index := v] else chars @ [v])"

text \<open>The local function \<open>ensureCategory\<close> of \<open>ensureCharacterCategories\<close>: it reads
  and writes the one array \<open>chars\<close>. The index is drawn before the character.\<close>

definition ensureCategory ::
  "bool \<Rightarrow> (char \<Rightarrow> bool) \<Rightarrow> string \<Rightarrow> config \<Rightarrow> draws \<Rightarrow> string \<times> nat \<Rightarrow> string \<times> nat" where
  "ensureCategory isRequired predicate pool cfg rs st =
     (let chars = fst st; i = snd st in
      if \<not> isRequired then st
      else if list_ex predicate chars then st
      else if length chars = 0 then st
      else (let index = randomIndex rs i (length chars);
                d = getRandomFromChars pool cfg rs (i + 1)
            in (array_set chars index (fst d), snd d)))"

definition markov_ensureCharacterCategories ::
  "string \<Rightarrow> config \<Rightarrow> draws \<Rightarrow> nat \<Rightarrow> string \<times> nat" where
  "markov_ensureCharacterCategories pw cfg rs i =
     ensureCategory (includeSymbols cfg) isSymbol getSymbolChars cfg rs
       (ensureCategory (includeNumbers cfg) isNumber getNumberChars cfg rs
         (ensureCategory (includeLowercase cfg) isLowercase getLowercaseChars cfg rs
           (ensureCategory (includeUppercase cfg) isUppercase getUppercaseChars cfg rs (pw, i))))"

text \<open>The state of \<open>ensureRequiredCharacters\<close>: the array \<open>chars\<close>, the object
  \<open>counts\<close> and the position in the draws.\<close>

record erc_state =
  erc_chars :: string
  erc_counts :: "char_type \<Rightarrow> int"
  erc_pos :: nat

definition initialCounts :: "string \<Rightarrow> char_type \<Rightarrow> int" where
  "initialCounts chars t =
     (case t of
        TUppercase \<Rightarrow> int (length (filter isUppercase chars))
      | TLowercase \<Rightarrow> int (length (filter isLowercase chars))
      | TNumbers \<Rightarrow> int (length (filter isNumber chars))
      | TSymbols \<Rightarrow> int (length (filter isSymbol chars)))"

definition minimums :: "config \<Rightarrow> char_type \<Rightarrow> int" where
  "minimums cfg t =
     (case t of
        TUppercase \<Rightarrow> (if includeUppercase cfg then 1 else 0)
      | TLowercase \<Rightarrow> (if includeLowercase cfg then 1 else 0)
      | TNumbers \<Rightarrow> (if includeNumbers cfg then 2 else 0)
      | TSymbols \<Rightarrow> (if includeSymbols cfg then 2 else 0))"

definition canReplace :: "config \<Rightarrow> char_type \<Rightarrow> erc_state \<Rightarrow> nat \<Rightarrow> bool" where
  "canReplace cfg targetType s index =
     (if index < length (erc_chars s) then
        (case getCharacterType (erc_chars s ! index) of
           None \<Rightarrow> True
         | Some currentType \<Rightarrow>
             if currentType = targetType then False
             else minimums cfg currentType \<le> erc_counts s currentType - 1)
      else False)"

text \<open>The first loop of \<open>findReplacementIndex\<close>: at most \<open>k\<close> more random attempts, one
  draw each.\<close>

fun randomAttempts ::
  "nat \<Rightarrow> config \<Rightarrow> char_type \<Rightarrow> erc_state \<Rightarrow> draws \<Rightarrow> nat \<Rightarrow> nat option \<times> nat" where
  "randomAttempts 0 cfg targetType s rs i = (None, i)"
| "randomAttempts (Suc k) cfg targetType s rs i =
     (let index = randomIndex rs i (length (erc_chars s)) in
      if canReplace cfg targetType s index then (Some index, i + 1)
      else randomAttempts k cfg targetType s rs (i + 1))"

text \<open>Random attempts, then the scan from index 0, then an unconditional random
  index.\<close>

definition findReplacementIndex ::
  "config \<Rightarrow> char_type \<Rightarrow> erc_state \<Rightarrow> draws \<Rightarrow> nat \<times> nat" where
  "findReplacementIndex cfg targetType s rs =
     (let len = length (erc_chars s) in
      case randomAttempts (len * 2) cfg targetType s rs (erc_pos s) of
        (Some index, i) \<Rightarrow> (index, i)
      | (None, i) \<Rightarrow>
          (case find (canReplace cfg targetType s) [0..<len] of
             Some index \<Rightarrow> (index, i)
           | None \<Rightarrow> (randomIndex rs i len, i + 1)))"

definition replaceChar :: "nat \<Rightarrow> char \<Rightarrow> char_type \<Rightarrow> erc_state \<Rightarrow> erc_state" where
  "replaceChar index newChar newType s =
     (let counts1 =
            (if index < length (erc_chars s) then
               (case getCharacterType (erc_chars s ! index) of
                  Some currentType \<Rightarrow>
                    (erc_counts s)(currentType := erc_counts s currentType - 1)
                | None \<Rightarrow> erc_counts s)
             else erc_counts s)
      in s\<lparr> erc_chars := array_set (erc_chars s) index newChar,
            erc_counts := counts1(newType := counts1 newType + 1) \<rparr>)"

text \<open>The body of the \<open>while\<close> loop of \<open>ensureType\<close>: the index is found first, the new
  character is drawn second.\<close>

definition ensureTypeStep ::
  "config \<Rightarrow> char_type \<Rightarrow> string \<Rightarrow> draws \<Rightarrow> erc_state \<Rightarrow> erc_state" where
  "ensureTypeStep cfg type pool rs s =
     (let found = findReplacementIndex cfg type s rs;
          d = getRandomFromChars pool cfg rs (snd found)
      in (replaceChar (fst found) (fst d) type s)\<lparr> erc_pos := snd d \<rparr>)"

text \<open>\<open>while (counts[type] < required)\<close>. Nothing bounds the number of passes, so the
  loop is a partial function: \<open>None\<close> is a loop that does not end.\<close>

partial_function (option) ensureType ::
  "config \<Rightarrow> char_type \<Rightarrow> string \<Rightarrow> draws \<Rightarrow> erc_state \<Rightarrow> erc_state option" where
  "ensureType cfg type pool rs s =
     (if erc_counts s type < minimums cfg type
      then ensureType cfg type pool rs (ensureTypeStep cfg type pool rs s)
      else Some s)"

declare ensureType.simps [code]

definition ensureRequiredCharacters ::
  "string \<Rightarrow> config \<Rightarrow> draws \<Rightarrow> nat \<Rightarrow> (string \<times> nat) option" where
  "ensureRequiredCharacters pw cfg rs i =
     (let s0 = \<lparr> erc_chars = pw, erc_counts = initialCounts pw, erc_pos = i \<rparr> in
      case (if includeSymbols cfg then ensureType cfg TSymbols getSymbolChars rs s0 else Some s0) of
        None \<Rightarrow> None
      | Some s1 \<Rightarrow>
          (case (if includeNumbers cfg then ensureType cfg TNumbers getNumberChars rs s1 else Some s1) of
             None \<Rightarrow> None
           | Some s2 \<Rightarrow> Some (erc_chars s2, erc_pos s2)))"

text \<open>The passes of \<open>while (result.length < maxLength)\<close> are counted from the bound.\<close>

definition markov_addEntropy :: "string \<Rightarrow> config \<Rightarrow> draws \<Rightarrow> nat \<Rightarrow> string \<times> nat" where
  "markov_addEntropy pw cfg rs i =
     (if js_lt (calculateEntropy pw) (Fin 60) then
        (let needed = js_ceil (js_div (Fin 60) (js_log2 (Fin (real (markov_getCharacterSetSize cfg)))))
         in if js_gt needed (Fin (real (length pw))) \<and> length pw < length_of cfg then
              (let maxLength = js_min needed (Fin (real (length_of cfg)));
                   target = (case maxLength of Fin m \<Rightarrow> nat \<lceil>m\<rceil> | _ \<Rightarrow> 0);
                   extension = appendRandomCharacters (target - length pw) cfg rs i
               in (take (length_of cfg) (pw @ fst extension), snd extension))
            else (take (length_of cfg) pw, i))
      else (take (length_of cfg) pw, i))"

definition applySecurityImprovements ::
  "string \<Rightarrow> config \<Rightarrow> draws \<Rightarrow> nat \<Rightarrow> (gen_error + string \<times> nat) option" where
  "applySecurityImprovements pw cfg rs i =
     (case sanitizeToAllowedCharacters pw cfg rs i of
        Inl e \<Rightarrow> Some (Inl e)
      | Inr s1 \<Rightarrow>
          (let s2 = markov_ensureCharacterCategories (fst s1) cfg rs (snd s1) in
           case ensureRequiredCharacters (fst s2) cfg rs (snd s2) of
             None \<Rightarrow> None
           | Some s3 \<Rightarrow>
               if js_lt (calculateEntropy (fst s3)) (Fin 60)
               then Some (Inr (markov_addEntropy (fst s3) cfg rs (snd s3)))
               else Some (Inr s3)))"

text \<open>\<open>MarkovPasswordGenerator.generatePassword\<close>. \<open>None\<close>: the call does not
  return.\<close>

definition markov_generatePassword ::
  "markov_state \<Rightarrow> config \<Rightarrow> draws \<Rightarrow> nat \<Rightarrow> (gen_error + generated_password) option" where
  "markov_generatePassword st cfg rs i =
     (case markov_generateBasePassword st cfg rs i of
        Inl e \<Rightarrow> Some (Inl e)
      | Inr base \<Rightarrow>
          (case applySecurityImprovements (fst base) cfg rs (snd base) of
             None \<Rightarrow> None
           | Some (Inl e) \<Rightarrow> Some (Inl e)
           | Some (Inr improved) \<Rightarrow>
               (let pw = fst improved; e = calculateEntropy pw in
                Some (Inr \<lparr> password = pw, entropy = e,
                            timeToCrack = markov_calculateTimeToCrack pw cfg,
                            strengthLevel = determineStrengthLevel e,
                            generationMethod = Markov \<rparr>))))"

section \<open>The comparison analyzer\<close>

text \<open>
  The analyzer is a public class: \<open>compareApproaches\<close> takes any two arrays of
  \<open>GeneratedPassword\<close> records. Its arithmetic is the checked one (\<open>js_plus\<close>,
  \<open>js_minus\<close>, \<open>js_times\<close>, \<open>js_over\<close>, \<open>js_total\<close>).
\<close>

text \<open>
  \<open>[...xs].sort((a, b) => a - b)\<close>. On finite numbers the comparator is consistent and
  every sorting algorithm returns the ascending arrangement; the model is a stable
  insertion sort driven by the comparator. (With \<open>NaN\<close> among the values ECMAScript
  leaves the order to the implementation; the model is then one admissible outcome.)
\<close>

fun js_insort :: "jsnum \<Rightarrow> jsnum list \<Rightarrow> jsnum list" where
  "js_insort x [] = [x]"
| "js_insort x (y # ys) =
     (if js_gt (js_minus x y) (Fin 0) then y # js_insort x ys else x # y # ys)"

definition js_sort :: "jsnum list \<Rightarrow> jsnum list" where
  "js_sort xs = foldr js_insort xs []"

text \<open>\<open>xs[i]\<close> used as a number: a read outside the array is \<open>undefined\<close>, which
  arithmetic turns into \<open>NaN\<close>.\<close>

definition js_nth :: "jsnum list \<Rightarrow> int \<Rightarrow> jsnum" where
  "js_nth xs i = (if 0 \<le> i \<and> i < int (length xs) then xs ! nat i else NaN)"

text \<open>
  \<open>Math.min(...xs)\<close> and \<open>Math.max(...xs)\<close> pass every element of the array as an
  argument of the call. An engine accepts only so many arguments and throws a
  \<open>RangeError\<close> beyond; the number depends on the engine and on its stack, so it is a
  parameter of the model, \<open>maxArguments\<close>. On no argument the results are \<open>Infinity\<close> and
  \<open>-Infinity\<close>.
\<close>

datatype analyzer_error = RangeError

definition math_min :: "nat \<Rightarrow> jsnum list \<Rightarrow> analyzer_error + jsnum" where
  "math_min maxArguments xs =
     (if maxArguments < length xs then Inl RangeError else Inr (foldl js_min PInf xs))"

definition math_max :: "nat \<Rightarrow> jsnum list \<Rightarrow> analyzer_error + jsnum" where
  "math_max maxArguments xs =
     (if maxArguments < length xs then Inl RangeError else Inr (foldl js_max NInf xs))"

definition median_of :: "jsnum list \<Rightarrow> jsnum" where
  "median_of xs =
     (let sorted = js_sort xs; n = length xs in
      if n mod 2 = 0
      then js_over (js_plus (js_nth sorted (int (n div 2) - 1)) (js_nth sorted (int (n div 2)))) (Fin 2)
      else js_nth sorted (int (n div 2)))"

definition calculateStandardDeviation :: "jsnum list \<Rightarrow> jsnum" where
  "calculateStandardDeviation vals =
     (let mean = js_over (js_total vals) (Fin (real (length vals)));
          variance = js_over (js_total (map (\<lambda>val. js_pow (js_minus val mean) (Fin 2)) vals))
                             (Fin (real (length vals)))
      in js_sqrt variance)"

record entropy_statistics =
  es_average :: jsnum
  es_median :: jsnum
  es_min :: jsnum
  es_max :: jsnum
  es_standardDeviation :: jsnum
  es_above60Bits :: nat
  es_above60BitsPercentage :: jsnum

text \<open>The fields of the returned object are evaluated in the order of the source; the
  first \<open>RangeError\<close> ends the call.\<close>

definition calculateEntropyStatistics :: "nat \<Rightarrow> jsnum list \<Rightarrow> analyzer_error + entropy_statistics" where
  "calculateEntropyStatistics maxArguments entropies =
     (let n = length entropies;
          average = js_over (js_total entropies) (Fin (real n));
          median = median_of entropies in
      case math_min maxArguments entropies of
        Inl err \<Rightarrow> Inl err
      | Inr lowest \<Rightarrow>
     (case math_max maxArguments entropies of
        Inl err \<Rightarrow> Inl err
      | Inr highest \<Rightarrow>
          Inr \<lparr> es_average = average,
                es_median = median,
                es_min = lowest,
                es_max = highest,
                es_standardDeviation = calculateStandardDeviation entropies,
                es_above60Bits = length (filter (\<lambda>e. js_ge e (Fin 60)) entropies),
                es_above60BitsPercentage =
                  js_times (js_over (Fin (real (length (filter (\<lambda>e. js_ge e (Fin 60)) entropies))))
                                    (Fin (real n)))
                           (Fin 100) \<rparr>))"

record time_statistics =
  ts_average :: jsnum
  ts_median :: jsnum
  ts_min :: jsnum
  ts_max :: jsnum
  ts_above10Years :: nat
  ts_above10YearsPercentage :: jsnum

definition calculateTimeStatistics :: "nat \<Rightarrow> jsnum list \<Rightarrow> analyzer_error + time_statistics" where
  "calculateTimeStatistics maxArguments crackingTimes =
     (let n = length crackingTimes;
          average = js_over (js_total crackingTimes) (Fin (real n));
          median = median_of crackingTimes in
      case math_min maxArguments crackingTimes of
        Inl err \<Rightarrow> Inl err
      | Inr lowest \<Rightarrow>
     (case math_max maxArguments crackingTimes of
        Inl err \<Rightarrow> Inl err
      | Inr highest \<Rightarrow>
          Inr \<lparr> ts_average = average,
                ts_median = median,
                ts_min = lowest,
                ts_max = highest,
                ts_above10Years = length (filter (\<lambda>t. js_ge t (Fin 10)) crackingTimes),
                ts_above10YearsPercentage =
                  js_times (js_over (Fin (real (length (filter (\<lambda>t. js_ge t (Fin 10)) crackingTimes))))
                                    (Fin (real n)))
                           (Fin 100) \<rparr>))"

record strength_distribution =
  sd_VeryWeak :: jsnum
  sd_Weak :: jsnum
  sd_Average :: jsnum
  sd_Strong :: jsnum
  sd_VeryStrong :: jsnum

definition calculateStrengthDistribution :: "generated_password list \<Rightarrow> strength_distribution" where
  "calculateStrengthDistribution passwords =
     (let tally = (\<lambda>level. real (length (filter (\<lambda>p. strengthLevel p = level) passwords)));
          total = Fin (real (length passwords)) in
      \<lparr> sd_VeryWeak = js_times (js_over (Fin (tally VeryWeak)) total) (Fin 100),
        sd_Weak = js_times (js_over (Fin (tally Weak)) total) (Fin 100),
        sd_Average = js_times (js_over (Fin (tally Average)) total) (Fin 100),
        sd_Strong = js_times (js_over (Fin (tally Strong)) total) (Fin 100),
        sd_VeryStrong = js_times (js_over (Fin (tally VeryStrong)) total) (Fin 100) \<rparr>)"

subsection \<open>Readability\<close>

fun starts_with :: "string \<Rightarrow> string \<Rightarrow> bool" where
  "starts_with s [] = True"
| "starts_with [] (w # ws) = False"
| "starts_with (c # cs) (w # ws) = (c = w \<and> starts_with cs ws)"

text \<open>\<open>s.includes(w)\<close>.\<close>

fun js_includes :: "string \<Rightarrow> string \<Rightarrow> bool" where
  "js_includes [] w = (w = [])"
| "js_includes (c # cs) w = (starts_with (c # cs) w \<or> js_includes cs w)"

definition commonWords :: "string list" where
  "commonWords = [''password'', ''admin'', ''user'', ''test'', ''login'', ''welcome'']"

definition hasCommonWords :: "string \<Rightarrow> bool" where
  "hasCommonWords pw = list_ex (\<lambda>word. js_includes (map toLowerCase pw) word) commonWords"

definition vowels :: string where
  "vowels = ''aeiou''"

definition consonants :: string where
  "consonants = ''bcdfghjklmnpqrstvwxyz''"

text \<open>The loop over \<open>i < password.length - 1\<close> returns true at the first consonant that
  a vowel follows.\<close>

fun hasPronounceablePatterns :: "string \<Rightarrow> bool" where
  "hasPronounceablePatterns (current # next # rest) =
     ((toLowerCase current \<in> set consonants \<and> toLowerCase next \<in> set vowels)
      \<or> hasPronounceablePatterns (next # rest))"
| "hasPronounceablePatterns pw = False"

definition hasReasonableLength :: "string \<Rightarrow> bool" where
  "hasReasonableLength pw = (8 \<le> length pw \<and> length pw \<le> 20)"

definition hasExcessiveSymbols :: "string \<Rightarrow> bool" where
  "hasExcessiveSymbols pw =
     js_gt (Fin (real (length (filter re_other pw))))
           (js_times (Fin (real (length pw))) (Fin 0.3))"

definition hasMixedCase :: "string \<Rightarrow> bool" where
  "hasMixedCase pw = (list_ex re_lower pw \<and> list_ex re_upper pw)"

definition readabilityPoints :: "string \<Rightarrow> nat" where
  "readabilityPoints pw =
     (if hasCommonWords pw then 2 else 0)
   + (if hasPronounceablePatterns pw then 1 else 0)
   + (if hasReasonableLength pw then 1 else 0)
   + (if \<not> hasExcessiveSymbols pw then 1 else 0)
   + (if hasMixedCase pw then 1 else 0)"

definition getReadabilityDescription :: "jsnum \<Rightarrow> string" where
  "getReadabilityDescription score =
     (if js_ge score (Fin 4) then ''Very Readable''
      else if js_ge score (Fin 3) then ''Readable''
      else if js_ge score (Fin 2) then ''Moderately Readable''
      else if js_ge score (Fin 1) then ''Less Readable''
      else ''Not Readable'')"

record readability_score =
  averageScore :: jsnum
  percentage :: jsnum
  description :: string

definition calculateReadabilityScore :: "generated_password list \<Rightarrow> readability_score" where
  "calculateReadabilityScore passwords =
     (let totalScore = Fin (real (sum_list (map (\<lambda>p. readabilityPoints (password p)) passwords)));
          maxScore = Fin (real (length passwords * 6)) in
      \<lparr> averageScore = js_over totalScore (Fin (real (length passwords))),
        percentage = js_times (js_over totalScore maxScore) (Fin 100),
        description = getReadabilityDescription (js_over totalScore (Fin (real (length passwords)))) \<rparr>)"

record security_compliance =
  entropyAbove60Bits :: nat
  entropyAbove60BitsPercentage :: jsnum
  timeAbove10Years :: nat
  timeAbove10YearsPercentage :: jsnum
  bothRequirementsMet :: nat
  bothRequirementsMetPercentage :: jsnum

definition calculateSecurityCompliance :: "generated_password list \<Rightarrow> security_compliance" where
  "calculateSecurityCompliance passwords =
     (let total = Fin (real (length passwords));
          e60 = length (filter (\<lambda>p. js_ge (entropy p) (Fin 60)) passwords);
          t10 = length (filter (\<lambda>p. js_ge (years (timeToCrack p)) (Fin 10)) passwords);
          both = length (filter (\<lambda>p. js_ge (entropy p) (Fin 60)
                                     \<and> js_ge (years (timeToCrack p)) (Fin 10)) passwords) in
      \<lparr> entropyAbove60Bits = e60,
        entropyAbove60BitsPercentage = js_times (js_over (Fin (real e60)) total) (Fin 100),
        timeAbove10Years = t10,
        timeAbove10YearsPercentage = js_times (js_over (Fin (real t10)) total) (Fin 100),
        bothRequirementsMet = both,
        bothRequirementsMetPercentage = js_times (js_over (Fin (real both)) total) (Fin 100) \<rparr>)"

record password_statistics =
  count :: nat
  entropyStats :: entropy_statistics
  crackingTime :: time_statistics
  strengthDistribution :: strength_distribution
  readabilityScore :: readability_score
  securityCompliance :: security_compliance

definition calculateStatistics ::
  "nat \<Rightarrow> generated_password list \<Rightarrow> analyzer_error + password_statistics" where
  "calculateStatistics maxArguments passwords =
     (let entropies = map entropy passwords;
          crackingTimes = map (\<lambda>p. years (timeToCrack p)) passwords in
      case calculateEntropyStatistics maxArguments entropies of
        Inl err \<Rightarrow> Inl err
      | Inr entropyStatistics \<Rightarrow>
     (case calculateTimeStatistics maxArguments crackingTimes of
        Inl err \<Rightarrow> Inl err
      | Inr timeStats \<Rightarrow>
          Inr \<lparr> count = length passwords,
                entropyStats = entropyStatistics,
                crackingTime = timeStats,
                strengthDistribution = calculateStrengthDistribution passwords,
                readabilityScore = calculateReadabilityScore passwords,
                securityCompliance = calculateSecurityCompliance passwords \<rparr>))"

subsection \<open>Comparison and recommendation\<close>

datatype approach = RandomApproach | MarkovApproach

record comparison_metric =
  cm_random :: jsnum
  cm_markov :: jsnum
  difference :: jsnum
  better :: approach

text \<open>One entry of \<open>generateComparison\<close>: the Markov value minus the random value, and
  \<open>"markov"\<close> only on a strictly greater Markov value.\<close>

definition compareMetric :: "jsnum \<Rightarrow> jsnum \<Rightarrow> comparison_metric" where
  "compareMetric r m =
     \<lparr> cm_random = r, cm_markov = m, difference = js_minus m r,
       better = (if js_gt m r then MarkovApproach else RandomApproach) \<rparr>"

record approach_comparison =
  entropyComparison :: comparison_metric
  timeComparison :: comparison_metric
  readabilityComparison :: comparison_metric
  securityComplianceComparison :: comparison_metric

definition generateComparison :: "password_statistics \<Rightarrow> password_statistics \<Rightarrow> approach_comparison" where
  "generateComparison randomStats markovStats =
     \<lparr> entropyComparison =
         compareMetric (es_average (entropyStats randomStats)) (es_average (entropyStats markovStats)),
       timeComparison =
         compareMetric (ts_average (crackingTime randomStats)) (ts_average (crackingTime markovStats)),
       readabilityComparison =
         compareMetric (averageScore (readabilityScore randomStats))
                       (averageScore (readabilityScore markovStats)),
       securityComplianceComparison =
         compareMetric (bothRequirementsMetPercentage (securityCompliance randomStats))
                       (bothRequirementsMetPercentage (securityCompliance markovStats)) \<rparr>"

definition calculateOverallScore :: "password_statistics \<Rightarrow> jsnum" where
  "calculateOverallScore stats =
     (let entropyScore = js_times (js_min (js_over (es_average (entropyStats stats)) (Fin 60)) (Fin 1)) (Fin 25);
          timeScore = js_times (js_min (js_over (ts_average (crackingTime stats)) (Fin 10)) (Fin 1)) (Fin 25);
          readability = js_times (js_over (percentage (readabilityScore stats)) (Fin 100)) (Fin 25);
          complianceScore =
            js_times (js_over (bothRequirementsMetPercentage (securityCompliance stats)) (Fin 100)) (Fin 25)
      in js_plus (js_plus (js_plus entropyScore timeScore) readability) complianceScore)"

record recommendations =
  recommendation_lines :: "string list"
  overallWinner :: approach
  randomScore :: jsnum
  markovScore :: jsnum

definition generateRecommendations :: "password_statistics \<Rightarrow> password_statistics \<Rightarrow> recommendations" where
  "generateRecommendations randomStats markovStats =
     (let l1 = (if js_gt (es_average (entropyStats markovStats)) (es_average (entropyStats randomStats))
                then ''Markov approach generates passwords with higher average entropy''
                else ''Random approach generates passwords with higher average entropy'');
          l2 = (if js_gt (ts_average (crackingTime markovStats)) (ts_average (crackingTime randomStats))
                then ''Markov approach generates passwords with longer average cracking time''
                else ''Random approach generates passwords with longer average cracking time'');
          l3 = (if js_gt (averageScore (readabilityScore markovStats))
                         (averageScore (readabilityScore randomStats))
                then ''Markov approach generates more readable passwords''
                else ''Random approach generates more readable passwords'');
          l4 = (if js_gt (bothRequirementsMetPercentage (securityCompliance markovStats))
                         (bothRequirementsMetPercentage (securityCompliance randomStats))
                then ''Markov approach better meets security requirements (60+ bits, 10+ years)''
                else ''Random approach better meets security requirements (60+ bits, 10+ years)'');
          rScore = calculateOverallScore randomStats;
          mScore = calculateOverallScore markovStats;
          l5 = (if js_gt mScore rScore
                then ''Overall recommendation: Markov approach is better for this use case''
                else ''Overall recommendation: Random approach is better for this use case'')
      in \<lparr> recommendation_lines = [l1, l2, l3, l4, l5],
           overallWinner = (if js_gt mScore rScore then MarkovApproach else RandomApproach),
           randomScore = rScore,
           markovScore = mScore \<rparr>)"

record comparison_analysis =
  ca_random :: password_statistics
  ca_markov :: password_statistics
  comparison :: approach_comparison
  ca_recommendations :: recommendations

definition compareApproaches ::
  "nat \<Rightarrow> generated_password list \<Rightarrow> generated_password list \<Rightarrow> analyzer_error + comparison_analysis"
where
  "compareApproaches maxArguments randomPasswords markovPasswords =
     (case calculateStatistics maxArguments randomPasswords of
        Inl err \<Rightarrow> Inl err
      | Inr randomStats \<Rightarrow>
     (case calculateStatistics maxArguments markovPasswords of
        Inl err \<Rightarrow> Inl err
      | Inr markovStats \<Rightarrow>
          Inr \<lparr> ca_random = randomStats,
                ca_markov = markovStats,
                comparison = generateComparison randomStats markovStats,
                ca_recommendations = generateRecommendations randomStats markovStats \<rparr>))"

section \<open>Sample batches\<close>


text \<open>An entry with finite values whose cracking time in years is \<open>2^1023\<close>, a double:
  two of them add up to \<open>2^1024\<close>, beyond the largest double.\<close>

definition heavy_entry :: generated_password where
  "heavy_entry =
     \<lparr> password = ''aaaa'', entropy = Fin 20,
       timeToCrack = \<lparr> seconds = Fin 1, minutes = Fin 1, hours = Fin 1, days = Fin 1,
                       years = Fin (2 ^ 1023) \<rparr>,
       strengthLevel = VeryWeak, generationMethod = Heuristic \<rparr>"

section \<open>Sample inputs\<close>

text \<open>Configurations, a trained model and sequences of draws at which the generators
  are run below.\<close>

definition cfg_lower8 :: config where
  "cfg_lower8 = \<lparr> length_of = 8, includeUppercase = False, includeLowercase = True,
     includeNumbers = False, includeSymbols = False, avoidSimilar = False, avoidAmbiguous = False \<rparr>"


definition cfg_lower8_similar :: config where
  "cfg_lower8_similar = \<lparr> length_of = 8, includeUppercase = False, includeLowercase = True,
     includeNumbers = False, includeSymbols = False, avoidSimilar = True, avoidAmbiguous = False \<rparr>"

definition cfg_lower_symbols8 :: config where
  "cfg_lower_symbols8 = \<lparr> length_of = 8, includeUppercase = False, includeLowercase = True,
     includeNumbers = False, includeSymbols = True, avoidSimilar = False, avoidAmbiguous = False \<rparr>"

definition cfg_symbols1 :: config where
  "cfg_symbols1 = \<lparr> length_of = 1, includeUppercase = False, includeLowercase = False,
     includeNumbers = False, includeSymbols = True, avoidSimilar = False, avoidAmbiguous = False \<rparr>"

definition cfg_symbols2 :: config where
  "cfg_symbols2 = \<lparr> length_of = 2, includeUppercase = False, includeLowercase = False,
     includeNumbers = False, includeSymbols = True, avoidSimilar = False, avoidAmbiguous = False \<rparr>"

text \<open>The model trained on the one password \<open>ab\<close>, with order 1.\<close>

definition model_ab :: markov_state where
  "model_ab = trainModel initial_state [''ab''] 1"

section \<open>Predicates of the statements\<close>

text \<open>The sum of the minimum counts that \<open>ensureRequiredCharacters\<close> enforces or
  protects: one uppercase letter, one lowercase letter, two digits and two symbols, each
  for an enabled category.\<close>

definition required_total :: "config \<Rightarrow> nat" where
  "required_total cfg =
     (if includeUppercase cfg then 1 else 0) + (if includeLowercase cfg then 1 else 0)
   + (if includeNumbers cfg then 2 else 0) + (if includeSymbols cfg then 2 else 0)"

text \<open>The four unit conversions of a time-to-crack record.\<close>

definition unit_conversions :: "crack_time \<Rightarrow> bool" where
  "unit_conversions t =
     (minutes t = js_div (seconds t) (Fin 60) \<and>
      hours t = js_div (seconds t) (Fin 3600) \<and>
      days t = js_div (seconds t) (Fin 86400) \<and>
      years t = js_div (seconds t) (Fin (365.25 * 86400)))"

text \<open>A character has the type \<open>t\<close>; the counts of a state are the true counts of its
  array; the characters \<open>getRandomFromChars\<close> can return for a pool.\<close>

definition typed_as :: "char_type \<Rightarrow> char \<Rightarrow> bool" where
  "typed_as t c = (getCharacterType c = Some t)"

definition counts_exact :: "erc_state \<Rightarrow> bool" where
  "counts_exact s = (\<forall>t. erc_counts s t = initialCounts (erc_chars s) t)"

definition replacements :: "string \<Rightarrow> config \<Rightarrow> char set" where
  "replacements pool cfg =
     set (if 0 < length (filterCharsForConfig pool cfg) then filterCharsForConfig pool cfg else pool)"

text \<open>A number that is neither \<open>NaN\<close> nor negative: \<open>Infinity\<close> or a finite number
  at least zero.\<close>

definition nonneg_or_infinite :: "jsnum \<Rightarrow> bool" where
  "nonneg_or_infinite x = (case x of Fin a \<Rightarrow> 0 \<le> a | PInf \<Rightarrow> True | _ \<Rightarrow> False)"

text \<open>A finite number of magnitude at most \<open>M\<close>.\<close>

definition bounded_by :: "real \<Rightarrow> jsnum \<Rightarrow> bool" where
  "bounded_by M x = (case x of Fin a \<Rightarrow> \<bar>a\<bar> \<le> M | _ \<Rightarrow> False)"

text \<open>A state of the symbol loop that no pass changes: one character, a symbol, counted
  once.\<close>

definition stuck :: "erc_state \<Rightarrow> bool" where
  "stuck s = (length (erc_chars s) = 1 \<and> isSymbol (erc_chars s ! 0) \<and> erc_counts s TSymbols = 1)"

section \<open>Properties of the arithmetic\<close>

lemma overflow_limit_bounds: "2 ^ 1023 < overflow_limit" "overflow_limit < 2 ^ 1024" "0 < overflow_limit"
  by (simp_all add: overflow_limit_def)

lemma overflow_Fin: "\<bar>a\<bar> < overflow_limit \<Longrightarrow> overflow (Fin a) = Fin a"
  by auto

lemma overflow_small: "\<bar>a\<bar> \<le> 2 ^ 1023 \<Longrightarrow> overflow (Fin a) = Fin a"
  using overflow_limit_bounds(1) by (intro overflow_Fin) linarith

lemma overflow_PInf: "overflow_limit \<le> a \<Longrightarrow> overflow (Fin a) = PInf"
  by simp

lemma pow_10_12: "js_pow (Fin 10) (Fin 12) = Fin (10 ^ 12)"
proof -
  have "(10::real) powr 12 = 10 ^ 12"
    using powr_realpow[of "10::real" 12] by simp
  then show ?thesis by (simp add: overflow_small del: overflow.simps)
qed

section \<open>Properties of the security estimator\<close>

lemma char_of_code: "char_of (code c) = c"
  by (simp add: code_def)

lemma lowercase_upt: "map char_of [97..<123::nat] = lowercase"
  unfolding lowercase_def by code_simp
lemma uppercase_upt: "map char_of [65..<91::nat] = uppercase"
  unfolding uppercase_def by code_simp
lemma numbers_upt: "map char_of [48..<58::nat] = numbers"
  unfolding numbers_def by code_simp

lemma in_range_char: "a \<le> code c \<Longrightarrow> code c < b \<Longrightarrow> c \<in> set (map char_of [a..<b])"
proof -
  assume "a \<le> code c" "code c < b"
  then have "char_of (code c) \<in> char_of ` set [a..<b]" by (intro imageI) simp
  then show ?thesis by (simp add: char_of_code)
qed

lemma re_lower_iff: "re_lower c \<longleftrightarrow> c \<in> set lowercase"
proof
  assume "re_lower c"
  then have "c \<in> set (map char_of [97..<123])"
    by (intro in_range_char) (auto simp: re_lower_def)
  then show "c \<in> set lowercase" by (simp only: lowercase_upt)
next
  assume "c \<in> set lowercase"
  then show "re_lower c" by (auto simp: lowercase_def re_lower_def code_def)
qed

lemma re_upper_iff: "re_upper c \<longleftrightarrow> c \<in> set uppercase"
proof
  assume "re_upper c"
  then have "c \<in> set (map char_of [65..<91])"
    by (intro in_range_char) (auto simp: re_upper_def)
  then show "c \<in> set uppercase" by (simp only: uppercase_upt)
next
  assume "c \<in> set uppercase"
  then show "re_upper c" by (auto simp: uppercase_def re_upper_def code_def)
qed

lemma re_digit_iff: "re_digit c \<longleftrightarrow> c \<in> set numbers"
proof
  assume "re_digit c"
  then have "c \<in> set (map char_of [48..<58])"
    by (intro in_range_char) (auto simp: re_digit_def)
  then show "c \<in> set numbers" by (simp only: numbers_upt)
next
  assume "c \<in> set numbers"
  then show "re_digit c" by (auto simp: numbers_def re_digit_def code_def)
qed

text \<open>
  C8: with \<open>observedSize\<close> the number of distinct characters of the password,
  \<open>calculateEntropy\<close> returns \<open>length * log2(max(observedSize, theoreticalSize))\<close> when
  \<open>observedSize < 26\<close>, where \<open>theoreticalSize\<close> adds 26 if a lowercase letter is
  present, 26 for an uppercase letter, 10 for a digit and 32 for any other character, and
  \<open>length * log2(observedSize)\<close> otherwise. The arithmetic is JavaScript's, so the
  formula also covers the empty string. In particular the entropy of \<open>aaaa\<close> is
  \<open>4 * log2(26)\<close>, more than 18.8 bits.
\<close>

theorem calculateEntropy_formula:
  "calculateEntropy p =
     (let observedSize = card (set p);
          theoretical = (if \<exists>c\<in>set p. c \<in> set lowercase then 26 else 0)
                      + (if \<exists>c\<in>set p. c \<in> set uppercase then 26 else 0)
                      + (if \<exists>c\<in>set p. c \<in> set numbers then 10 else 0)
                      + (if \<exists>c\<in>set p. c \<notin> set lowercase \<and> c \<notin> set uppercase \<and> c \<notin> set numbers
                         then 32 else 0)
      in if observedSize < 26
         then js_mul (Fin (real (length p))) (js_log2 (Fin (real (max observedSize theoretical))))
         else js_mul (Fin (real (length p))) (js_log2 (Fin (real observedSize))))"
proof -
  have sz: "getCharacterSetSizeFromPassword p = card (set p)"
    by (simp add: getCharacterSetSizeFromPassword_def length_remdups_card_conv)
  have th: "theoreticalSize p =
      (if \<exists>c\<in>set p. c \<in> set lowercase then 26 else 0)
    + (if \<exists>c\<in>set p. c \<in> set uppercase then 26 else 0)
    + (if \<exists>c\<in>set p. c \<in> set numbers then 10 else 0)
    + (if \<exists>c\<in>set p. c \<notin> set lowercase \<and> c \<notin> set uppercase \<and> c \<notin> set numbers then 32 else 0)"
    by (simp add: theoreticalSize_def list_ex_iff re_other_def re_lower_iff re_upper_iff re_digit_iff)
  have mx: "js_max (Fin (real a)) (Fin (real b)) = Fin (real (max a b))" for a b :: nat
    by (simp add: max_def)
  show ?thesis
    unfolding calculateEntropy_def sz th mx Let_def ..
qed

lemma log26_bounds: "188 / 10 < 4 * log 2 (26::real)"
proof -
  have "(2::real) powr (47 / 10) < 26"
  proof -
    have "((2::real) powr (47/10)) ^ 10 = 2 ^ 47"
      by (simp add: powr_power)
    also have "\<dots> < (26::real) ^ 10" by simp
    finally show ?thesis using power_less_imp_less_base[of "2 powr (47/10)" 10 26] by simp
  qed
  then have "47 / 10 < log 2 (26::real)"
    using less_log_iff[of 2 26 "47/10"] by simp
  then show ?thesis by simp
qed

theorem calculateEntropy_formula_witness:
  "calculateEntropy ''aaaa'' = Fin (4 * log 2 26) \<and> 188 / 10 < 4 * log 2 (26::real)"
  using calculateEntropy_formula [of "''aaaa''"] log26_bounds
  by (simp add: lowercase_def uppercase_def numbers_def)

section \<open>Properties of training\<close>

text \<open>
  C10: training is deterministic: the transition map and the start-state map after
  \<open>trainModel\<close> are the same whatever the state of the generator before the call (fresh
  or trained), so they are a function of the corpus and the order alone; \<open>trainModel\<close>
  takes no random source.
\<close>

theorem trainModel_deterministic:
  "model (trainModel s1 ps k) = model (trainModel s2 ps k) \<and>
   startStates (trainModel s1 ps k) = startStates (trainModel s2 ps k)"
  by (simp add: trainModel_def normalizeProbabilities_def Let_def)

lemma js_sum_Fin: "foldl js_add (Fin a) (map Fin xs) = Fin (a + sum_list xs)"
  by (induction xs arbitrary: a) (auto simp: add.assoc)

lemma counts_ok_values: "counts_ok m \<Longrightarrow> \<exists>cs. map snd m = map Fin cs \<and> (\<forall>c\<in>set cs. 1 \<le> c)"
proof (induction m)
  case Nil
  then show ?case by simp
next
  case (Cons kv m)
  then obtain c where c: "snd kv = Fin c" "1 \<le> c" 
    by (cases "snd kv") (auto simp: counts_ok_def)
  from Cons obtain cs where "map snd m = map Fin cs" "\<forall>c\<in>set cs. 1 \<le> c"
    by (auto simp: counts_ok_def)
  then have "map snd (kv # m) = map Fin (c # cs) \<and> (\<forall>c\<in>set (c # cs). 1 \<le> c)"
    using c by simp
  then show ?case by blast
qed

lemma sum_list_pos: "cs \<noteq> [] \<Longrightarrow> \<forall>c\<in>set cs. (1::real) \<le> c \<Longrightarrow> 1 \<le> sum_list cs"
proof (induction cs)
  case Nil then show ?case by simp
next
  case (Cons c cs)
  have "0 \<le> sum_list cs" using Cons.prems by (intro sum_list_nonneg) auto
  then show ?case using Cons.prems by simp
qed

lemma normalize_sums:
  assumes "counts_ok m" "m \<noteq> []"
  shows "js_sum (map snd (normalize_map m)) = Fin 1"
proof -
  obtain cs where cs: "map snd m = map Fin cs" "\<forall>c\<in>set cs. 1 \<le> c"
    using counts_ok_values[OF assms(1)] by blast
  have ne: "cs \<noteq> []" using cs(1) assms(2) by auto
  define t where "t = sum_list cs"
  have t: "1 \<le> t" unfolding t_def using sum_list_pos[OF ne cs(2)] .
  have total: "js_sum (map snd m) = Fin t"
    using js_sum_Fin[of 0 cs] by (simp add: js_sum_def cs(1) t_def)
  have "map snd (normalize_map m) = map (\<lambda>v. js_div v (Fin t)) (map snd m)"
    by (simp add: normalize_map_def total Let_def case_prod_beta comp_def)
  also have "\<dots> = map Fin (map (\<lambda>c. c / t) cs)"
    using t by (simp add: cs(1) comp_def)
  finally have "js_sum (map snd (normalize_map m)) = Fin (sum_list (map (\<lambda>c. c / t) cs))"
    using js_sum_Fin[of 0 "map (\<lambda>c. c / t) cs"] by (simp add: js_sum_def)
  also have "sum_list (map (\<lambda>c. c / t) cs) = sum_list cs / t"
    by (induction cs) (auto simp: add_divide_distrib)
  also have "\<dots> = 1" using t by (simp add: t_def)
  finally show ?thesis .
qed

lemma map_set_cases: "(k', v') \<in> set (map_set m k v) \<Longrightarrow> (k', v') \<in> set m \<or> (k' = k \<and> v' = v)"
  by (induction m) (auto split: if_splits)

lemma map_set_nonempty: "map_set m k v \<noteq> []"
  by (cases m) (auto split: if_splits)

lemma map_of_counts_ok: "counts_ok m \<Longrightarrow> map_of m k = Some v \<Longrightarrow> \<exists>c. v = Fin c \<and> 1 \<le> c"
  by (induction m) (auto simp: counts_ok_def split: if_splits jsnum.splits)

lemma counts_ok_map_set: "counts_ok m \<Longrightarrow> 1 \<le> c \<Longrightarrow> counts_ok (map_set m k (Fin c))"
  by (induction m) (auto simp: counts_ok_def)

lemma counts_ok_bump: "counts_ok m \<Longrightarrow> counts_ok (bump m k)"
proof -
  assume ok: "counts_ok m"
  show ?thesis
  proof (cases "map_of m k")
    case None
    then show ?thesis using ok by (simp add: bump_def or_zero_def counts_ok_map_set)
  next
    case (Some v)
    then obtain c where "v = Fin c" "1 \<le> c" using map_of_counts_ok[OF ok] by blast
    then show ?thesis using ok Some by (simp add: bump_def or_zero_def counts_ok_map_set)
  qed
qed

lemma bump_nonempty: "bump m k \<noteq> []"
  by (simp add: bump_def map_set_nonempty)

lemma rows_ok_map_set: "rows_ok m \<Longrightarrow> tr \<noteq> [] \<Longrightarrow> counts_ok tr \<Longrightarrow> rows_ok (map_set m k tr)"
  unfolding rows_ok_def using map_set_cases by fastforce

lemma rows_ok_recordTransition: "rows_ok m \<Longrightarrow> rows_ok (recordTransition m s c)"
proof -
  assume ok: "rows_ok m"
  show ?thesis
  proof (cases "map_of m s")
    case None
    have "counts_ok (bump ([]::(char \<times> jsnum) list) c)" by (rule counts_ok_bump) (simp add: counts_ok_def)
    then show ?thesis using ok None by (simp add: recordTransition_def rows_ok_map_set bump_nonempty)
  next
    case (Some tr)
    then have "(s, tr) \<in> set m" by (rule map_of_SomeD)
    then have "counts_ok tr" using ok by (auto simp: rows_ok_def)
    then show ?thesis using ok Some
      by (simp add: recordTransition_def rows_ok_map_set bump_nonempty counts_ok_bump)
  qed
qed

lemma rows_ok_recordTransitions: "rows_ok m \<Longrightarrow> rows_ok (recordTransitions k p m)"
proof -
  have "rows_ok m \<Longrightarrow> rows_ok (fold (\<lambda>i m'. if i + k < length p
                   then recordTransition m' (take k (drop i p)) (p ! (i + k))
                   else m') is m)" for "is"
    by (induction "is" arbitrary: m) (auto simp: rows_ok_recordTransition)
  then show "rows_ok m \<Longrightarrow> rows_ok (recordTransitions k p m)"
    by (simp add: recordTransitions_def)
qed

lemma trainOne_ok:
  "rows_ok (fst ms) \<Longrightarrow> counts_ok (snd ms) \<Longrightarrow>
   rows_ok (fst (trainOne k p ms)) \<and> counts_ok (snd (trainOne k p ms))"
  by (simp add: trainOne_def rows_ok_recordTransitions counts_ok_bump)

lemma fold_trainOne_ok:
  "rows_ok (fst ms) \<Longrightarrow> counts_ok (snd ms) \<Longrightarrow>
   rows_ok (fst (fold (trainOne k) ps ms)) \<and> counts_ok (snd (fold (trainOne k) ps ms))"
  by (induction ps arbitrary: ms) (auto simp: trainOne_ok)

lemma trainOne_starts_mono: "snd ms \<noteq> [] \<Longrightarrow> snd (trainOne k p ms) \<noteq> []"
  by (simp add: trainOne_def bump_nonempty)

lemma fold_trainOne_starts_mono: "snd ms \<noteq> [] \<Longrightarrow> snd (fold (trainOne k) ps ms) \<noteq> []"
  by (induction ps arbitrary: ms) (auto simp: trainOne_starts_mono)

lemma fold_trainOne_starts:
  "\<exists>p\<in>set ps. k + 1 \<le> length p \<Longrightarrow> snd (fold (trainOne k) ps ms) \<noteq> []"
proof (induction ps arbitrary: ms)
  case Nil then show ?case by simp
next
  case (Cons p ps)
  show ?case
  proof (cases "k + 1 \<le> length p")
    case True
    then have "snd (trainOne k p ms) \<noteq> []" by (simp add: trainOne_def bump_nonempty)
    then show ?thesis by (simp add: fold_trainOne_starts_mono)
  next
    case False
    then show ?thesis using Cons by auto
  qed
qed

lemma sums_to_one_normalize: "counts_ok m \<Longrightarrow> m \<noteq> [] \<Longrightarrow> sums_to_one (normalize_map m)"
  by (simp add: sums_to_one_def normalize_sums)

text \<open>
  C4: after \<open>trainModel\<close> on a corpus that holds at least one password of length at
  least \<open>order + 1\<close>, the outgoing probabilities of every state of the transition map sum
  to one within \<open>1e-9\<close>, and so do the probabilities of \<open>startStates\<close>. (Finite
  arithmetic is exact here, so the sums are exactly one.)
\<close>

theorem trained_probabilities_sum_to_one:
  assumes "\<exists>p\<in>set ps. k + 1 \<le> length p"
  shows "(\<forall>(state, transitions)\<in>set (model (trainModel st ps k)). sums_to_one transitions) \<and>
         sums_to_one (startStates (trainModel st ps k))"
proof -
  define counted where "counted = fold (trainOne k) ps ([], [])"
  have ok: "rows_ok (fst counted)" "counts_ok (snd counted)"
    unfolding counted_def using fold_trainOne_ok[of "([], [])" k ps]
    by (simp_all add: rows_ok_def counts_ok_def)
  have ne: "snd counted \<noteq> []" unfolding counted_def using assms by (rule fold_trainOne_starts)
  have m: "model (trainModel st ps k) = map (\<lambda>(state, transitions). (state, normalize_map transitions)) (fst counted)"
    and s: "startStates (trainModel st ps k) = normalize_map (snd counted)"
    by (simp_all add: trainModel_def normalizeProbabilities_def Let_def counted_def)
  have "sums_to_one tr" if "(state, tr) \<in> set (model (trainModel st ps k))" for state tr
  proof -
    from that obtain tr0 where "(state, tr0) \<in> set (fst counted)" "tr = normalize_map tr0"
      unfolding m by auto
    then show ?thesis using ok(1) by (auto simp: rows_ok_def sums_to_one_normalize)
  qed
  moreover have "sums_to_one (startStates (trainModel st ps k))"
    unfolding s using ok(2) ne by (rule sums_to_one_normalize)
  ultimately show ?thesis by auto
qed

lemma train_ab: "trainModel initial_state [''ab''] 1 =
   \<lparr> model = [(''a'', [(CHR ''b'', Fin 1)])], startStates = [(''a'', Fin 1)], order = 1, trainingData = [''ab''] \<rparr>"
  by (simp add: trainModel_def initial_state_def trainOne_def recordTransitions_def recordTransition_def
      bump_def or_zero_def normalizeProbabilities_def normalize_map_def js_sum_def Let_def)

theorem trained_probabilities_sum_to_one_witness:
  "(''a'', [(CHR ''b'', Fin 1)]) \<in> set (model (trainModel initial_state [''ab''] 1)) \<and>
   sums_to_one [(CHR ''b'', Fin 1)] \<and>
   sums_to_one (startStates (trainModel initial_state [''ab''] 1))"
proof -
  have h: "\<exists>p\<in>set [''ab'']. 1 + 1 \<le> length p" by simp
  have m: "(''a'', [(CHR ''b'', Fin 1)]) \<in> set (model (trainModel initial_state [''ab''] 1))"
    unfolding train_ab by simp
  from trained_probabilities_sum_to_one [OF h, of initial_state] m show ?thesis by fastforce
qed

section \<open>Numeric facts\<close>

lemma log2_less:
  assumes "(n::real) ^ k < 2 ^ m" "0 < n"
  shows "real k * log 2 n < real m"
proof -
  have "log 2 (n ^ k) < log 2 (2 ^ m)"
    using assms by (intro log_less_cancel_iff[THEN iffD2]) auto
  then show ?thesis using assms(2) by (simp add: log_nat_power)
qed

lemma log2_ge:
  assumes "2 ^ m \<le> (n::real) ^ k" "0 < n"
  shows "real m \<le> real k * log 2 n"
proof -
  have "log 2 (2 ^ m) \<le> log 2 (n ^ k)"
    using assms by (intro log_le_cancel_iff[THEN iffD2]) auto
  then show ?thesis using assms(2) by (simp add: log_nat_power)
qed

lemma ceil_needed:
  assumes "(n::real) ^ k < 2 ^ 60" "2 ^ 60 \<le> n ^ Suc k" "1 < n"
  shows "\<lceil>60 / log 2 n\<rceil> = int (Suc k)"
proof -
  have pos: "0 < log 2 n" using assms(3) by simp
  have a: "real k * log 2 n < 60" using log2_less[OF assms(1)] assms(3) by simp
  have b: "60 \<le> real (Suc k) * log 2 n" using log2_ge[OF assms(2)] assms(3) by simp
  have "real k < 60 / log 2 n" using a pos by (simp add: pos_less_divide_eq)
  moreover have "60 / log 2 n \<le> real (Suc k)" using b pos by (simp add: pos_divide_le_eq)
  ultimately show ?thesis by (intro ceiling_unique) auto
qed

lemma needed26: "\<lceil>60 / log 2 (26::real)\<rceil> = 13"
  using ceil_needed[of 26 12] by simp

lemma needed52: "\<lceil>60 / log 2 (52::real)\<rceil> = 11"
  using ceil_needed[of 52 10] by simp

lemma e26_8: "8 * log 2 (26::real) < 60"
  using log2_less[of 26 8 60] by simp

lemma e58_8: "8 * log 2 (58::real) < 60"
  using log2_less[of 58 8 60] by simp

lemma log2_pos: "1 < (x::real) \<Longrightarrow> 0 < log 2 x"
  using zero_less_log_cancel_iff[of 2 x] by simp

lemma log2_nonzero: "1 < (x::real) \<Longrightarrow> log 2 x \<noteq> 0"
  using log2_pos[of x] by linarith

lemma log26_pos: "log 2 (26::real) \<noteq> 0"
  by (rule log2_nonzero) simp

lemma log32: "log 2 32 = 5"
proof -
  have "log 2 (2 powr 5) = 5" by (rule log_powr_cancel) auto
  then show ?thesis by simp
qed

section \<open>Properties of the random source\<close>

lemma randomIndex_lt: "valid_draws rs \<Longrightarrow> 0 < n \<Longrightarrow> randomIndex rs i n < n"
proof -
  assume v: "valid_draws rs" and n: "0 < n"
  have a: "0 \<le> rs i" and b: "rs i < 1" using v by (auto simp: valid_draws_def)
  have "rs i * real n < real n" using b n by simp
  then have "\<lfloor>rs i * real n\<rfloor> < int n" by (simp add: floor_less_iff)
  moreover have "0 \<le> \<lfloor>rs i * real n\<rfloor>" using a by simp
  ultimately show ?thesis by (simp add: randomIndex_def nat_less_iff)
qed

lemma valid_constant: "0 \<le> r \<Longrightarrow> r < 1 \<Longrightarrow> valid_draws (constant_draws r)"
  by (simp add: valid_draws_def constant_draws_def)

section \<open>The heuristic generator\<close>

text \<open>The run on the lowercase-only configuration of length 8, every draw 0.\<close>

lemma lower8_base: "random_generateBasePassword cfg_lower8 (constant_draws 0) 0 = Inr (''aaaaaaaa'', 8)"
  by code_simp

lemma lower8_categories: "random_ensureCharacterCategories ''aaaaaaaa'' cfg_lower8 (constant_draws 0) 8 = (''aaaaaaaa'', 8)"
  by code_simp

lemma lower8_patterns: "breakCommonPatterns ''aaaaaaaa'' (constant_draws 0) 8 = (''aaaaaaaa'', 15)"
  by code_simp

lemma lower8_sequences: "avoidSequentialChars ''aaaaaaaa'' (constant_draws 0) 15 = (''aaaaaaaa'', 15)"
  by code_simp

lemma lower8_entropy: "calculateEntropy ''aaaaaaaa'' = Fin (8 * log 2 26)"
  by (simp add: calculateEntropy_def getCharacterSetSizeFromPassword_def theoreticalSize_def
      re_lower_def re_upper_def re_digit_def re_other_def code_def)

lemma lower8_appended: "drawChars 5 (configuredCharset cfg_lower8) (constant_draws 0) 15 = ''aaaaa''"
  by code_simp

lemma lower8_needed: "neededLength cfg_lower8 = Fin 13"
  using needed26 log26_pos by (simp add: neededLength_def getCharacterSetSize_def cfg_lower8_def lowercase_def)

lemma lower8_addEntropy: "random_addEntropy ''aaaaaaaa'' cfg_lower8 (constant_draws 0) 15 = Some (''aaaaaaaaaaaaa'', 20)"
proof -
  have "loop_count (js_max (Fin 0) (js_sub (Fin 13) (Fin (real (length ''aaaaaaaa''))))) = Some 5"
    by (simp add: js_sub_def loop_count_def)
  then show ?thesis
    using e26_8 by (simp add: random_addEntropy_def lower8_entropy lower8_needed lower8_appended Let_def del: js_max.simps)
qed

lemma lower8_heuristics: "applyHeuristics ''aaaaaaaa'' cfg_lower8 (constant_draws 0) 8 = Some (''aaaaaaaaaaaaa'', 20)"
  using e26_8 by (simp only: applyHeuristics_def Let_def lower8_categories fst_conv snd_conv lower8_patterns lower8_sequences lower8_entropy js_lt.simps if_True lower8_addEntropy)

lemma lower8_generated:
  "map_option (map_sum id password) (random_generatePassword cfg_lower8 (constant_draws 0) 0)
     = Some (Inr ''aaaaaaaaaaaaa'')"
  by (simp add: random_generatePassword_def lower8_base lower8_heuristics Let_def)

text \<open>The same configuration under any valid draws: the base password is eight
  lowercase letters, the repairs keep the length and the letters lowercase, the entropy
  is \<open>8 * log2(26)\<close>, below 60, and \<open>addEntropy\<close> appends five characters.\<close>

lemma drawChars_length: "length (drawChars k cs rs i) = k"
  by (simp add: drawChars_def)

lemma drawChars_set: "valid_draws rs \<Longrightarrow> cs \<noteq> [] \<Longrightarrow> set (drawChars k cs rs i) \<subseteq> set cs"
  using randomIndex_lt[of rs "length cs"] by (auto simp: drawChars_def)

lemma alternatives_lowercase: "c \<in> set lowercase \<Longrightarrow> getAlternativeChars c = lowercase"
  by (simp add: getAlternativeChars_def)

lemma alternatives_nonempty: "getAlternativeChars c \<noteq> []"
  by (simp add: getAlternativeChars_def lowercase_def uppercase_def numbers_def symbols_def)

lemma breakCommonPatterns_length: "length (fst (breakCommonPatterns pw rs i)) = length pw"
proof (induction pw rs i rule: breakCommonPatterns.induct)
  case (1 rs i)
  then show ?case by simp
next
  case (2 c rest rs i)
  define n where "n = length (takeWhile (\<lambda>x. x = c) rest)"
  have n: "n \<le> length rest" unfolding n_def by (rule length_takeWhile_le)
  show ?case
  proof (cases "dot_matches c \<and> 2 \<le> n")
    case True
    then have "length (fst (breakCommonPatterns (drop n rest) rs (i + n))) = length (drop n rest)"
      using 2(1)[OF n_def] by simp
    then show ?thesis using True n
      by (simp add: Let_def n_def[symmetric] drawChars_length)
  next
    case False
    then have "length (fst (breakCommonPatterns rest rs i)) = length rest"
      using 2(2)[OF n_def] by simp
    then show ?thesis using False by (auto simp: Let_def n_def[symmetric])
  qed
qed

lemma breakCommonPatterns_lowercase:
  "valid_draws rs \<Longrightarrow> set pw \<subseteq> set lowercase \<Longrightarrow> set (fst (breakCommonPatterns pw rs i)) \<subseteq> set lowercase"
proof (induction pw rs i rule: breakCommonPatterns.induct)
  case (1 rs i)
  then show ?case by simp
next
  case (2 c rest rs i)
  define n where "n = length (takeWhile (\<lambda>x. x = c) rest)"
  have c: "c \<in> set lowercase" and rest: "set rest \<subseteq> set lowercase" using 2(4) by auto
  have dropped: "set (drop n rest) \<subseteq> set lowercase" using rest set_drop_subset by fastforce
  have lne: "lowercase \<noteq> []" by (simp add: lowercase_def)
  show ?case
  proof (cases "dot_matches c \<and> 2 \<le> n")
    case True
    have "set (fst (breakCommonPatterns (drop n rest) rs (i + n))) \<subseteq> set lowercase"
      using 2(1)[OF n_def True refl 2(3) dropped] .
    moreover have "set (drawChars n (getAlternativeChars c) rs i) \<subseteq> set lowercase"
      using drawChars_set[OF 2(3) lne] by (simp add: alternatives_lowercase[OF c])
    ultimately show ?thesis using True c by (simp add: Let_def n_def[symmetric])
  next
    case False
    have "set (fst (breakCommonPatterns rest rs i)) \<subseteq> set lowercase"
      using 2(2)[OF n_def False 2(3) rest] .
    then show ?thesis using False c by (auto simp: Let_def n_def[symmetric])
  qed
qed

lemma avoidSequentialFrom_length: "length (fst (avoidSequentialFrom k chars rs i)) = length chars"
proof (induction k chars rs i rule: avoidSequentialFrom.induct)
  case (1 k chars rs i)
  show ?case
  proof (cases "k + 2 < length chars")
    case True
    then show ?thesis using 1 by (subst avoidSequentialFrom.simps) (simp add: Let_def)
  next
    case False
    then show ?thesis by (subst avoidSequentialFrom.simps) simp
  qed
qed

lemma avoidSequentialFrom_lowercase:
  "valid_draws rs \<Longrightarrow> set chars \<subseteq> set lowercase \<Longrightarrow>
   set (fst (avoidSequentialFrom k chars rs i)) \<subseteq> set lowercase"
proof (induction k chars rs i rule: avoidSequentialFrom.induct)
  case (1 k chars rs i)
  show ?case
  proof (cases "k + 2 < length chars")
    case True
    note inrange = True
    show ?thesis
    proof (cases "isSequential (chars ! k) (chars ! (k + 1)) (chars ! (k + 2))")
      case True
      define alternatives where "alternatives = getAlternativeChars (chars ! (k + 1))"
      define randomChar where "randomChar = alternatives ! randomIndex rs i (length alternatives)"
      have "chars ! (k + 1) \<in> set lowercase" using inrange 1(4) by (auto simp: subset_iff)
      then have alt: "alternatives = lowercase" unfolding alternatives_def by (rule alternatives_lowercase)
      have "randomIndex rs i (length lowercase) < length lowercase"
        using 1(3) by (intro randomIndex_lt) (simp_all add: lowercase_def)
      then have "randomChar \<in> set lowercase" by (simp add: randomChar_def alt)
      then have "set (chars[k + 1 := randomChar]) \<subseteq> set lowercase"
        using 1(4) set_update_subset_insert[of chars "k + 1" randomChar] by auto
      from 1(1)[OF inrange True alternatives_def randomChar_def 1(3) this]
      show ?thesis using inrange True
        by (subst avoidSequentialFrom.simps) (simp add: Let_def alternatives_def randomChar_def)
    next
      case False
      from 1(2)[OF inrange False 1(3) 1(4)]
      show ?thesis using inrange False by (subst avoidSequentialFrom.simps) simp
    qed
  next
    case False
    then show ?thesis using 1(4) by (subst avoidSequentialFrom.simps) simp
  qed
qed

lemma lowercase_entropy:
  assumes ne: "pw \<noteq> []" and low: "set pw \<subseteq> set lowercase" and short: "length pw < 26"
  shows "calculateEntropy pw = Fin (real (length pw) * log 2 26)"
proof -
  have all: "\<And>c. c \<in> set pw \<Longrightarrow> re_lower c" using low by (auto simp: re_lower_iff)
  obtain c where "c \<in> set pw" using ne by (cases pw) auto
  then have l: "list_ex re_lower pw" using all by (auto simp: list_ex_iff)
  have "\<not> re_upper x \<and> \<not> re_digit x \<and> \<not> re_other x" if "x \<in> set pw" for x
    using all[OF that] by (simp add: re_lower_def re_upper_def re_digit_def re_other_def)
  then have u: "\<not> list_ex re_upper pw" and d: "\<not> list_ex re_digit pw" and o: "\<not> list_ex re_other pw"
    by (auto simp: list_ex_iff)
  have t: "theoreticalSize pw = 26" using l u d o by (simp add: theoreticalSize_def)
  have "card (set pw) \<le> length pw" by (rule card_length)
  then have sz: "getCharacterSetSizeFromPassword pw < 26"
    using short by (simp add: getCharacterSetSizeFromPassword_def length_remdups_card_conv)
  show ?thesis using sz by (simp add: calculateEntropy_def Let_def t max_def)
qed

lemma heuristic_lower8_run:
  assumes v: "valid_draws rs"
  shows "\<exists>r. random_generatePassword cfg_lower8 rs i = Some (Inr r) \<and> length (password r) = 13
           \<and> entropy r = calculateEntropy (password r)
           \<and> timeToCrack r = random_calculateTimeToCrack (entropy r)"
proof -
  have lne: "lowercase \<noteq> []" by (simp add: lowercase_def)
  define pw0 where "pw0 = drawChars 8 lowercase rs i"
  have base: "random_generateBasePassword cfg_lower8 rs i = Inr (pw0, i + 8)"
    by (simp add: random_generateBasePassword_def cfg_lower8_def configuredCharset_def pw0_def lowercase_def)
  have l0: "length pw0 = 8" and s0: "set pw0 \<subseteq> set lowercase"
    using drawChars_set[OF v lne] by (simp_all add: pw0_def drawChars_length)
  have ne0: "pw0 \<noteq> []" using l0 by auto
  then obtain c where "c \<in> set pw0" by (cases pw0) auto
  then have "list_ex (\<lambda>c. c \<in> set lowercase) pw0" using s0 by (auto simp: list_ex_iff)
  then have cat: "random_ensureCharacterCategories pw0 cfg_lower8 rs (i + 8) = (pw0, i + 8)"
    by (simp add: random_ensureCharacterCategories_def repairCategory_def cfg_lower8_def Let_def)
  define s2 where "s2 = breakCommonPatterns pw0 rs (i + 8)"
  have l2: "length (fst s2) = 8" and a2: "set (fst s2) \<subseteq> set lowercase"
    using breakCommonPatterns_length[of pw0 rs "i + 8"] breakCommonPatterns_lowercase[OF v s0, of "i + 8"] l0
    by (simp_all add: s2_def)
  define s3 where "s3 = avoidSequentialChars (fst s2) rs (snd s2)"
  have l3: "length (fst s3) = 8" and a3: "set (fst s3) \<subseteq> set lowercase"
    using avoidSequentialFrom_length[of 0 "fst s2" rs "snd s2"]
          avoidSequentialFrom_lowercase[OF v a2, of 0 "snd s2"] l2
    by (simp_all add: s3_def avoidSequentialChars_def)
  have ne3: "fst s3 \<noteq> []" using l3 by auto
  have e3: "calculateEntropy (fst s3) = Fin (8 * log 2 26)"
    using lowercase_entropy[OF ne3 a3] l3 by simp
  have nl: "neededLength cfg_lower8 = Fin 13"
    using needed26 log26_pos by (simp add: neededLength_def getCharacterSetSize_def cfg_lower8_def lowercase_def)
  have lc: "loop_count (js_max (Fin 0) (js_sub (Fin 13) (Fin (real (length (fst s3)))))) = Some 5"
    by (simp add: l3 js_sub_def loop_count_def)
  have cs: "configuredCharset cfg_lower8 = lowercase"
    by (simp add: configuredCharset_def cfg_lower8_def)
  have add: "random_addEntropy (fst s3) cfg_lower8 rs (snd s3)
             = Some (fst s3 @ drawChars 5 lowercase rs (snd s3), snd s3 + 5)"
    using e26_8 by (simp add: random_addEntropy_def e3 nl lc cs Let_def del: js_max.simps)
  have heur: "applyHeuristics pw0 cfg_lower8 rs (i + 8)
             = Some (fst s3 @ drawChars 5 lowercase rs (snd s3), snd s3 + 5)"
    using e26_8 by (simp add: applyHeuristics_def cat Let_def s2_def[symmetric] s3_def[symmetric] e3 add)
  show ?thesis
    by (simp add: random_generatePassword_def base heur Let_def l3 drawChars_length)
qed

text \<open>
  C1: a password returned by \<open>generatePassword\<close> has exactly the configured length.
  The heuristic generator breaks this: its \<open>addEntropy\<close> appends characters up to
  \<open>ceil(60 / log2(poolSize))\<close> without the cap at \<open>config.length\<close> that the Markov
  generator's \<open>addEntropy\<close> applies. On the lowercase-only configuration of length 8 the
  returned password has 13 characters, whatever the draws.
\<close>

theorem heuristic_length_exceeds_config:
  assumes "valid_draws rs"
  shows "\<exists>r. random_generatePassword cfg_lower8 rs i = Some (Inr r) \<and>
           length (password r) = 13 \<and> length_of cfg_lower8 = 8"
  using heuristic_lower8_run[OF assms, of i] by (auto simp: cfg_lower8_def)

theorem heuristic_length_exceeds_config_witness:
  "map_option (map_sum id (\<lambda>r. (password r, length (password r))))
     (random_generatePassword cfg_lower8 (constant_draws 0) 0)
     = Some (Inr (''aaaaaaaaaaaaa'', 13))"
proof -
  have h: "valid_draws (constant_draws 0)" by (rule valid_constant) simp_all
  from heuristic_length_exceeds_config [OF h, of 0]
  obtain r where r: "random_generatePassword cfg_lower8 (constant_draws 0) 0 = Some (Inr r)"
    and l: "length (password r) = 13" by blast
  have "password r = ''aaaaaaaaaaaaa''" using lower8_generated r by simp
  then show ?thesis using r l by simp
qed

text \<open>The run on the lowercase-only configuration of length 8 with \<open>avoidSimilar\<close>,
  every draw 0.45.\<close>

lemma similar_base: "random_generateBasePassword cfg_lower8_similar (constant_draws (9 / 20)) 0 = Inr (''mmmmmmmm'', 8)"
  by code_simp

lemma similar_categories: "random_ensureCharacterCategories ''mmmmmmmm'' cfg_lower8_similar (constant_draws (9 / 20)) 8 = (''mmmmmmmm'', 8)"
  by code_simp

lemma similar_patterns: "breakCommonPatterns ''mmmmmmmm'' (constant_draws (9 / 20)) 8 = (''mlllllll'', 15)"
  by code_simp

lemma similar_sequences: "avoidSequentialChars ''mlllllll'' (constant_draws (9 / 20)) 15 = (''mlllllll'', 15)"
  by code_simp

lemma similar_entropy: "calculateEntropy ''mlllllll'' = Fin (8 * log 2 26)"
  by (simp add: calculateEntropy_def getCharacterSetSizeFromPassword_def theoreticalSize_def
      re_lower_def re_upper_def re_digit_def re_other_def code_def)

lemma similar_appended: "drawChars 5 (configuredCharset cfg_lower8_similar) (constant_draws (9 / 20)) 15 = ''lllll''"
  by code_simp

lemma similar_needed: "neededLength cfg_lower8_similar = Fin 13"
  using needed26 log26_pos by (simp add: neededLength_def getCharacterSetSize_def cfg_lower8_similar_def lowercase_def)

lemma similar_addEntropy: "random_addEntropy ''mlllllll'' cfg_lower8_similar (constant_draws (9 / 20)) 15 = Some (''mllllllllllll'', 20)"
proof -
  have "loop_count (js_max (Fin 0) (js_sub (Fin 13) (Fin (real (length ''mlllllll''))))) = Some 5"
    by (simp add: js_sub_def loop_count_def)
  then show ?thesis
    using e26_8 by (simp add: random_addEntropy_def similar_entropy similar_needed similar_appended Let_def del: js_max.simps)
qed

lemma similar_heuristics: "applyHeuristics ''mmmmmmmm'' cfg_lower8_similar (constant_draws (9 / 20)) 8 = Some (''mllllllllllll'', 20)"
  using e26_8 by (simp only: applyHeuristics_def Let_def similar_categories fst_conv snd_conv similar_patterns similar_sequences similar_entropy js_lt.simps if_True similar_addEntropy)

lemma similar_generated: "map_option (map_sum id password) (random_generatePassword cfg_lower8_similar (constant_draws (9 / 20)) 0)
    = Some (Inr ''mllllllllllll'')"
  by (simp add: random_generatePassword_def similar_base similar_heuristics Let_def)

text \<open>
  C2: every character of a returned password is in the allowed pool of its configuration.
  The heuristic generator breaks this: only the base password is drawn from the filtered
  character set, the repairs and \<open>addEntropy\<close> draw from the unfiltered category
  strings (the Markov generator filters every replacement). With \<open>avoidSimilar\<close> set,
  the returned password holds the excluded character \<open>l\<close>.
\<close>

theorem heuristic_similar_character_leak:
  "map_option (map_sum id password) (random_generatePassword cfg_lower8_similar (constant_draws (9 / 20)) 0)
     = Some (Inr ''mllllllllllll'') \<and>
   avoidSimilar cfg_lower8_similar \<and> CHR ''l'' \<in> set similarChars"
  using similar_generated by (simp add: cfg_lower8_similar_def similarChars_def)

text \<open>The run on the configuration of length 8 with lowercase letters and symbols,
  every draw 0.\<close>

lemma onesymbol_base: "random_generateBasePassword cfg_lower_symbols8 (constant_draws 0) 0 = Inr (''aaaaaaaa'', 8)"
  by code_simp

lemma onesymbol_categories: "random_ensureCharacterCategories ''aaaaaaaa'' cfg_lower_symbols8 (constant_draws 0) 8 = (''!aaaaaaa'', 10)"
  by code_simp

lemma onesymbol_patterns: "breakCommonPatterns ''!aaaaaaa'' (constant_draws 0) 10 = (''!aaaaaaa'', 16)"
  by code_simp

lemma onesymbol_sequences: "avoidSequentialChars ''!aaaaaaa'' (constant_draws 0) 16 = (''!aaaaaaa'', 16)"
  by code_simp

lemma onesymbol_entropy: "calculateEntropy ''!aaaaaaa'' = Fin (8 * log 2 58)"
  by (simp add: calculateEntropy_def getCharacterSetSizeFromPassword_def theoreticalSize_def
      re_lower_def re_upper_def re_digit_def re_other_def code_def)

lemma onesymbol_appended: "drawChars 3 (configuredCharset cfg_lower_symbols8) (constant_draws 0) 16 = ''aaa''"
  by code_simp

lemma onesymbol_needed: "neededLength cfg_lower_symbols8 = Fin 11"
  using needed52 log2_nonzero[of 52]
  by (simp add: neededLength_def getCharacterSetSize_def cfg_lower_symbols8_def lowercase_def symbols_def)

lemma onesymbol_addEntropy: "random_addEntropy ''!aaaaaaa'' cfg_lower_symbols8 (constant_draws 0) 16 = Some (''!aaaaaaaaaa'', 19)"
proof -
  have "loop_count (js_max (Fin 0) (js_sub (Fin 11) (Fin (real (length ''!aaaaaaa''))))) = Some 3"
    by (simp add: js_sub_def loop_count_def)
  then show ?thesis
    using e58_8 by (simp add: random_addEntropy_def onesymbol_entropy onesymbol_needed onesymbol_appended Let_def del: js_max.simps)
qed

lemma onesymbol_heuristics: "applyHeuristics ''aaaaaaaa'' cfg_lower_symbols8 (constant_draws 0) 8 = Some (''!aaaaaaaaaa'', 19)"
  using e58_8 by (simp only: applyHeuristics_def Let_def onesymbol_categories fst_conv snd_conv onesymbol_patterns onesymbol_sequences onesymbol_entropy js_lt.simps if_True onesymbol_addEntropy)

lemma onesymbol_generated: "map_option (map_sum id password) (random_generatePassword cfg_lower_symbols8 (constant_draws 0) 0)
    = Some (Inr ''!aaaaaaaaaa'')"
  by (simp add: random_generatePassword_def onesymbol_base onesymbol_heuristics Let_def)

lemma onesymbol_count: "length (filter isSymbol ''!aaaaaaaaaa'') = 1"
  by (simp add: isSymbol_def isUppercase_def isLowercase_def isNumber_def code_def)

text \<open>The claim C5 as stated fails on the heuristic generator, which inserts one
  character of a missing category and no more: with \<open>includeSymbols\<close> set the returned
  password has a single symbol.\<close>

theorem heuristic_single_symbol_counterexample:
  "map_option (map_sum id password) (random_generatePassword cfg_lower_symbols8 (constant_draws 0) 0)
     = Some (Inr ''!aaaaaaaaaa'') \<and>
   includeSymbols cfg_lower_symbols8 \<and>
   length (filter (\<lambda>c. c \<in> set symbols) ''!aaaaaaaaaa'') = 1 \<and>
   length (filter isSymbol ''!aaaaaaaaaa'') = 1"
  using onesymbol_generated onesymbol_count by (simp add: cfg_lower_symbols8_def symbols_def)

section \<open>The replacement loop of the Markov generator\<close>

lemma getRandomFromPool_in: "pool \<noteq> [] \<Longrightarrow> fst (getRandomFromPool pool rs i) \<in> set pool"
  by (auto simp: getRandomFromPool_def Let_def)

lemma symbol_pool: "c \<in> set getSymbolChars \<Longrightarrow> isSymbol c"
  by (auto simp: getSymbolChars_def isSymbol_def isUppercase_def isLowercase_def isNumber_def code_def)

lemma filter_sub: "set (filterCharsForConfig chars cfg) \<subseteq> set chars"
  by (auto simp: filterCharsForConfig_def without_def Let_def)

lemma getRandomFromChars_in: "chars \<noteq> [] \<Longrightarrow> fst (getRandomFromChars chars cfg rs i) \<in> set chars"
proof -
  assume ne: "chars \<noteq> []"
  define pool where "pool = (if 0 < length (filterCharsForConfig chars cfg) then filterCharsForConfig chars cfg else chars)"
  have "pool \<noteq> []" using ne by (auto simp: pool_def)
  then have "fst (getRandomFromPool pool rs i) \<in> set pool" by (rule getRandomFromPool_in)
  moreover have "set pool \<subseteq> set chars" using filter_sub by (auto simp: pool_def)
  ultimately show ?thesis by (auto simp: getRandomFromChars_def Let_def pool_def)
qed

lemma getCharacterType_symbol: "isSymbol c \<Longrightarrow> getCharacterType c = Some TSymbols"
  by (simp add: getCharacterType_def isSymbol_def)

lemma stuck_no_candidate: "stuck s \<Longrightarrow> \<not> canReplace cfg TSymbols s index"
  by (cases index) (auto simp: stuck_def canReplace_def getCharacterType_symbol)

lemma stuck_attempts: "stuck s \<Longrightarrow> randomAttempts k cfg TSymbols s rs i = (None, i + k)"
  by (induction k arbitrary: i) (auto simp: stuck_no_candidate Let_def)

lemma stuck_find: "stuck s \<Longrightarrow> find (canReplace cfg TSymbols s) xs = None"
  by (simp add: find_None_iff stuck_no_candidate)

lemma stuck_index:
  assumes "stuck s" "valid_draws rs"
  shows "fst (findReplacementIndex cfg TSymbols s rs) = 0"
proof -
  have "randomIndex rs j 1 = 0" for j using randomIndex_lt[OF assms(2), of 1 j] by simp
  then show ?thesis using assms(1)
    by (simp add: findReplacementIndex_def Let_def stuck_attempts stuck_find stuck_def)
qed

lemma stuck_step:
  assumes "stuck s" "valid_draws rs"
  shows "stuck (ensureTypeStep cfg TSymbols getSymbolChars rs s)"
proof -
  define found where "found = findReplacementIndex cfg TSymbols s rs"
  define d where "d = getRandomFromChars getSymbolChars cfg rs (snd found)"
  have f0: "fst found = 0" unfolding found_def using assms by (rule stuck_index)
  have "fst d \<in> set getSymbolChars" unfolding d_def
    by (rule getRandomFromChars_in) (simp add: getSymbolChars_def)
  then have sym: "isSymbol (fst d)" by (rule symbol_pool)
  have "ensureTypeStep cfg TSymbols getSymbolChars rs s = (replaceChar 0 (fst d) TSymbols s)\<lparr> erc_pos := snd d \<rparr>"
    by (simp add: ensureTypeStep_def Let_def found_def[symmetric] d_def[symmetric] f0)
  moreover obtain c where c: "erc_chars s = [c]" "isSymbol c" "erc_counts s TSymbols = 1"
    using assms(1) by (cases "erc_chars s") (auto simp: stuck_def)
  ultimately show ?thesis using sym
    by (simp add: stuck_def replaceChar_def array_set_def getCharacterType_symbol Let_def)
qed

lemma stuck_never_returns:
  assumes "ensureType cfg ty pool rs s = Some y"
  shows "\<not> (ty = TSymbols \<and> pool = getSymbolChars \<and> includeSymbols cfg \<and> valid_draws rs \<and> stuck s)"
proof (rule ensureType.raw_induct[where P = "\<lambda>cfg ty pool rs s y.
          \<not> (ty = TSymbols \<and> pool = getSymbolChars \<and> includeSymbols cfg \<and> valid_draws rs \<and> stuck s)",
        OF _ assms])
  fix f cfg ty pool rs s y
  assume IH: "\<And>cfg ty pool rs s y. f cfg ty pool rs s = Some y \<Longrightarrow>
          \<not> (ty = TSymbols \<and> pool = getSymbolChars \<and> includeSymbols cfg \<and> valid_draws rs \<and> stuck s)"
    and eq: "(if erc_counts s ty < minimums cfg ty
              then f cfg ty pool rs (ensureTypeStep cfg ty pool rs s) else Some s) = Some y"
  show "\<not> (ty = TSymbols \<and> pool = getSymbolChars \<and> includeSymbols cfg \<and> valid_draws rs \<and> stuck s)"
  proof
    assume h: "ty = TSymbols \<and> pool = getSymbolChars \<and> includeSymbols cfg \<and> valid_draws rs \<and> stuck s"
    then have lt: "erc_counts s ty < minimums cfg ty" by (simp add: stuck_def minimums_def)
    with eq have "f cfg ty pool rs (ensureTypeStep cfg ty pool rs s) = Some y" by simp
    from IH[OF this]
    have "\<not> (ty = TSymbols \<and> pool = getSymbolChars \<and> includeSymbols cfg \<and> valid_draws rs
               \<and> stuck (ensureTypeStep cfg ty pool rs s))" .
    moreover have "stuck (ensureTypeStep cfg ty pool rs s)"
      using h stuck_step[of s rs cfg] by simp
    ultimately show False using h by simp
  qed
qed

lemma stuck_diverges:
  "includeSymbols cfg \<Longrightarrow> valid_draws rs \<Longrightarrow> stuck s \<Longrightarrow>
   ensureType cfg TSymbols getSymbolChars rs s = None"
proof -
  assume h: "includeSymbols cfg" "valid_draws rs" "stuck s"
  show ?thesis
  proof (cases "ensureType cfg TSymbols getSymbolChars rs s")
    case None
    then show ?thesis .
  next
    case (Some y)
    from stuck_never_returns[OF this] h show ?thesis by simp
  qed
qed

section \<open>A run of the Markov generator\<close>

text \<open>The run on the model of \<open>ab\<close> and the symbols-only configuration of length 2,
  every draw 0.\<close>

lemma model_ab_value: "model_ab =
   \<lparr> model = [(''a'', [(CHR ''b'', Fin 1)])], startStates = [(''a'', Fin 1)], order = 1, trainingData = [''ab''] \<rparr>"
  by (simp add: model_ab_def trainModel_def initial_state_def trainOne_def recordTransitions_def recordTransition_def
      bump_def or_zero_def normalizeProbabilities_def normalize_map_def js_sum_def Let_def)

lemma symbols2_base: "markov_generateBasePassword model_ab cfg_symbols2 (constant_draws 0) 0 = Inr (''ab'', 2)"
  unfolding model_ab_value by code_simp

lemma symbols2_sanitized: "sanitizeToAllowedCharacters ''ab'' cfg_symbols2 (constant_draws 0) 2 = Inr (''!!'', 4)"
  by code_simp

lemma symbols2_categories: "markov_ensureCharacterCategories ''!!'' cfg_symbols2 (constant_draws 0) 4 = (''!!'', 4)"
  by code_simp

lemma symbols2_required: "ensureRequiredCharacters ''!!'' cfg_symbols2 (constant_draws 0) 4 = Some (''!!'', 4)"
  by code_simp

lemma symbols2_entropy: "calculateEntropy ''!!'' = Fin 10"
  by (simp add: calculateEntropy_def getCharacterSetSizeFromPassword_def theoreticalSize_def
      re_lower_def re_upper_def re_digit_def re_other_def code_def log32)

lemma symbols2_addEntropy: "markov_addEntropy ''!!'' cfg_symbols2 (constant_draws 0) 4 = (''!!'', 4)"
  by (simp add: markov_addEntropy_def symbols2_entropy cfg_symbols2_def Let_def)

lemma symbols2_improved: "applySecurityImprovements ''ab'' cfg_symbols2 (constant_draws 0) 2 = Some (Inr (''!!'', 4))"
  by (simp only: applySecurityImprovements_def symbols2_sanitized sum.case Let_def fst_conv snd_conv symbols2_categories symbols2_required
      option.case symbols2_entropy js_lt.simps symbols2_addEntropy) simp

lemma symbols2_seconds: "seconds (markov_calculateTimeToCrack ''!!'' cfg_symbols2) = Fin (676 / 10 ^ 12)"
  by (simp add: markov_calculateTimeToCrack_def timeBreakdown_def markov_getCharacterSetSize_def cfg_symbols2_def
     getCharacterSetSizeFromPassword_def getSymbolChars_def overflow_small del: overflow.simps)

lemma symbols2_generated: "map_option (map_sum id (\<lambda>r. (password r, entropy r, seconds (timeToCrack r))))
     (markov_generatePassword model_ab cfg_symbols2 (constant_draws 0) 0)
    = Some (Inr (''!!'', Fin 10, Fin (676 / 10 ^ 12)))"
  by (simp add: markov_generatePassword_def symbols2_base symbols2_improved Let_def symbols2_entropy symbols2_seconds)

lemma symbols2_heuristic_seconds: "seconds (random_calculateTimeToCrack (Fin 10)) = Fin (1024 / 10 ^ 12)"
  by (simp add: random_calculateTimeToCrack_def timeBreakdown_def overflow_small del: overflow.simps)

section \<open>Total correctness of the Markov generator on long enough passwords\<close>

lemma type_cases: "getCharacterType c = Some TUppercase \<or> getCharacterType c = Some TLowercase
   \<or> getCharacterType c = Some TNumbers \<or> getCharacterType c = Some TSymbols"
  by (auto simp: getCharacterType_def isSymbol_def)

lemma type_upper: "isUppercase c \<longleftrightarrow> getCharacterType c = Some TUppercase"
  by (auto simp: getCharacterType_def isSymbol_def split: if_splits)

lemma type_lower: "isLowercase c \<longleftrightarrow> getCharacterType c = Some TLowercase"
  by (auto simp: getCharacterType_def isSymbol_def isUppercase_def isLowercase_def split: if_splits)

lemma type_number: "isNumber c \<longleftrightarrow> getCharacterType c = Some TNumbers"
  by (auto simp: getCharacterType_def isSymbol_def isUppercase_def isLowercase_def isNumber_def split: if_splits)

lemma type_symbol: "isSymbol c \<longleftrightarrow> getCharacterType c = Some TSymbols"
  by (auto simp: getCharacterType_def isSymbol_def split: if_splits)

lemma initialCounts_typed: "initialCounts chars t = int (length (filter (typed_as t) chars))"
proof -
  have "isUppercase = typed_as TUppercase" "isLowercase = typed_as TLowercase"
       "isNumber = typed_as TNumbers" "isSymbol = typed_as TSymbols"
    by (auto simp: typed_as_def type_upper type_lower type_number type_symbol fun_eq_iff)
  then show ?thesis by (cases t) (simp_all add: initialCounts_def)
qed

lemma filter_update_count:
  "i < length xs \<Longrightarrow>
   int (length (filter P (xs[i := c]))) =
   int (length (filter P xs)) - (if P (xs ! i) then 1 else 0) + (if P c then 1 else 0)"
proof (induction xs arbitrary: i)
  case Nil then show ?case by simp
next
  case (Cons x xs)
  show ?case
  proof (cases i)
    case 0
    then show ?thesis by simp
  next
    case (Suc n)
    then have "n < length xs" using Cons.prems by simp
    from Cons.IH[OF this] show ?thesis using Suc by (auto split: if_splits)
  qed
qed

lemma find_holds: "find P xs = Some x \<Longrightarrow> P x"
  by (induction xs) (auto split: if_splits)

lemma counts_total:
  "initialCounts chars TUppercase + initialCounts chars TLowercase
   + initialCounts chars TNumbers + initialCounts chars TSymbols = int (length chars)"
proof (induction chars)
  case Nil then show ?case by (simp add: initialCounts_typed)
next
  case (Cons c cs)
  show ?case using Cons type_cases[of c]
    by (auto simp: initialCounts_typed typed_as_def)
qed

lemma minimums_total:
  "minimums cfg TUppercase + minimums cfg TLowercase + minimums cfg TNumbers + minimums cfg TSymbols
   = int (required_total cfg)"
  by (simp add: minimums_def required_total_def)

lemma exists_typed: "0 < initialCounts chars t \<Longrightarrow> \<exists>j<length chars. getCharacterType (chars ! j) = Some t"
proof -
  assume "0 < initialCounts chars t"
  then have "filter (typed_as t) chars \<noteq> []" by (auto simp: initialCounts_typed)
  then obtain c where "c \<in> set chars" "typed_as t c"
    by (metis filter_False)
  then show ?thesis by (auto simp: in_set_conv_nth typed_as_def)
qed

lemma canReplace_exists:
  assumes ex: "counts_exact s" and len: "int (required_total cfg) \<le> int (length (erc_chars s))"
    and low: "erc_counts s ty < minimums cfg ty"
  shows "\<exists>j<length (erc_chars s). canReplace cfg ty s j"
proof -
  let ?c = "erc_counts s" and ?m = "minimums cfg"
  have tot: "?c TUppercase + ?c TLowercase + ?c TNumbers + ?c TSymbols = int (length (erc_chars s))"
    using ex counts_total[of "erc_chars s"] by (simp add: counts_exact_def)
  have "\<exists>t. t \<noteq> ty \<and> ?m t < ?c t"
  proof (rule ccontr)
    assume "\<not> (\<exists>t. t \<noteq> ty \<and> ?m t < ?c t)"
    then have le: "\<And>t. t \<noteq> ty \<Longrightarrow> ?c t \<le> ?m t" by force
    have "?c TUppercase + ?c TLowercase + ?c TNumbers + ?c TSymbols
          < ?m TUppercase + ?m TLowercase + ?m TNumbers + ?m TSymbols"
      using low le[of TUppercase] le[of TLowercase] le[of TNumbers] le[of TSymbols]
      by (cases ty) auto
    then show False using tot len minimums_total[of cfg] by simp
  qed
  then obtain t where t: "t \<noteq> ty" "?m t < ?c t" by blast
  have "0 \<le> ?m t" by (cases t) (auto simp: minimums_def)
  then have "0 < initialCounts (erc_chars s) t" using t(2) ex by (simp add: counts_exact_def)
  then obtain j where j: "j < length (erc_chars s)" "getCharacterType (erc_chars s ! j) = Some t"
    using exists_typed by blast
  then have "canReplace cfg ty s j" using t by (simp add: canReplace_def)
  then show ?thesis using j(1) by blast
qed

lemma canReplace_in_range: "canReplace cfg ty s j \<Longrightarrow> j < length (erc_chars s)"
  by (simp add: canReplace_def split: if_splits)

lemma randomAttempts_Some:
  "randomAttempts k cfg ty s rs i = (Some j, i') \<Longrightarrow> canReplace cfg ty s j"
  by (induction k arbitrary: i) (auto simp: Let_def split: if_splits)

lemma findReplacementIndex_good:
  assumes "\<exists>j<length (erc_chars s). canReplace cfg ty s j"
  shows "canReplace cfg ty s (fst (findReplacementIndex cfg ty s rs))"
proof (cases "randomAttempts (length (erc_chars s) * 2) cfg ty s rs (erc_pos s)")
  case (Pair r i')
  show ?thesis
  proof (cases r)
    case (Some j)
    then show ?thesis using Pair randomAttempts_Some[of _ cfg ty s rs _ j i']
      by (simp add: findReplacementIndex_def Let_def)
  next
    case None
    from assms obtain j where "j \<in> set [0..<length (erc_chars s)]" "canReplace cfg ty s j" by auto
    then have "find (canReplace cfg ty s) [0..<length (erc_chars s)] \<noteq> None"
      by (simp add: find_None_iff) blast
    then obtain j' where f: "find (canReplace cfg ty s) [0..<length (erc_chars s)] = Some j'" by blast
    then have "canReplace cfg ty s j'" by (rule find_holds)
    then show ?thesis using Pair None f by (simp add: findReplacementIndex_def Let_def)
  qed
qed

lemma replacements_sub: "replacements pool cfg \<subseteq> set pool"
  using filter_sub[of pool cfg] by (auto simp: replacements_def)

lemma getRandomFromChars_repl:
  "pool \<noteq> [] \<Longrightarrow> fst (getRandomFromChars pool cfg rs i) \<in> replacements pool cfg"
proof -
  assume ne: "pool \<noteq> []"
  define p where "p = (if 0 < length (filterCharsForConfig pool cfg) then filterCharsForConfig pool cfg else pool)"
  have "p \<noteq> []" using ne by (auto simp: p_def)
  then have "fst (getRandomFromPool p rs i) \<in> set p" by (rule getRandomFromPool_in)
  then show ?thesis by (simp add: getRandomFromChars_def replacements_def Let_def p_def)
qed

lemma good_step:
  fixes p :: nat
  assumes ex: "counts_exact s" and can: "canReplace cfg ty s j" and new: "typed_as ty c"
  defines "s' \<equiv> (replaceChar j c ty s)\<lparr> erc_pos := p \<rparr>"
  shows "length (erc_chars s') = length (erc_chars s)"
    and "counts_exact s'"
    and "erc_counts s' ty = erc_counts s ty + 1"
    and "\<And>t. t \<noteq> ty \<Longrightarrow> minimums cfg t \<le> erc_counts s t \<Longrightarrow> minimums cfg t \<le> erc_counts s' t"
    and "set (erc_chars s') \<subseteq> insert c (set (erc_chars s))"
proof -
  have j: "j < length (erc_chars s)" using can by (rule canReplace_in_range)
  obtain t0 where t0: "getCharacterType (erc_chars s ! j) = Some t0"
    using type_cases[of "erc_chars s ! j"] by blast
  have ne: "t0 \<noteq> ty" and room: "minimums cfg t0 \<le> erc_counts s t0 - 1"
    using can j t0 by (auto simp: canReplace_def split: if_splits)
  have chars: "erc_chars s' = (erc_chars s)[j := c]"
    using j by (simp add: s'_def replaceChar_def array_set_def Let_def)
  have counts: "erc_counts s' = (erc_counts s)(t0 := erc_counts s t0 - 1, ty := erc_counts s ty + 1)"
    using j t0 ne by (simp add: s'_def replaceChar_def Let_def)
  show "length (erc_chars s') = length (erc_chars s)" by (simp add: chars)
  show "erc_counts s' ty = erc_counts s ty + 1" by (simp add: counts)
  show "\<And>t. t \<noteq> ty \<Longrightarrow> minimums cfg t \<le> erc_counts s t \<Longrightarrow> minimums cfg t \<le> erc_counts s' t"
    using room by (simp add: counts)
  show "set (erc_chars s') \<subseteq> insert c (set (erc_chars s))"
    unfolding chars by (rule set_update_subset_insert)
  show "counts_exact s'"
    unfolding counts_exact_def
  proof
    fix t
    have old: "erc_counts s t = int (length (filter (typed_as t) (erc_chars s)))"
      using ex by (simp add: counts_exact_def initialCounts_typed)
    have a: "typed_as t (erc_chars s ! j) \<longleftrightarrow> t = t0" by (auto simp: typed_as_def t0)
    have b: "typed_as t c \<longleftrightarrow> t = ty" using new by (auto simp: typed_as_def)
    have "initialCounts (erc_chars s') t
          = erc_counts s t - (if t = t0 then 1 else 0) + (if t = ty then 1 else 0)"
      unfolding chars initialCounts_typed filter_update_count[OF j] old a b ..
    also have "\<dots> = erc_counts s' t" using ne by (auto simp: counts)
    finally show "erc_counts s' t = initialCounts (erc_chars s') t" by simp
  qed
qed

lemma ensureType_total:
  assumes pool: "pool \<noteq> []" "\<forall>c\<in>set pool. typed_as ty c"
    and len: "required_total cfg \<le> L"
  shows "counts_exact s \<Longrightarrow> length (erc_chars s) = L \<Longrightarrow>
         nat (minimums cfg ty - erc_counts s ty) = n \<Longrightarrow>
         \<exists>s'. ensureType cfg ty pool rs s = Some s' \<and> counts_exact s' \<and> length (erc_chars s') = L
            \<and> minimums cfg ty \<le> erc_counts s' ty
            \<and> (\<forall>t. t \<noteq> ty \<longrightarrow> minimums cfg t \<le> erc_counts s t \<longrightarrow> minimums cfg t \<le> erc_counts s' t)
            \<and> set (erc_chars s') \<subseteq> set (erc_chars s) \<union> replacements pool cfg"
proof (induction n arbitrary: s)
  case 0
  then have "\<not> erc_counts s ty < minimums cfg ty" by simp
  then have "ensureType cfg ty pool rs s = Some s" by (subst ensureType.simps) simp
  then show ?case using 0 by auto
next
  case (Suc n)
  then have low: "erc_counts s ty < minimums cfg ty" by linarith
  define found where "found = findReplacementIndex cfg ty s rs"
  define d where "d = getRandomFromChars pool cfg rs (snd found)"
  define s1 where "s1 = ensureTypeStep cfg ty pool rs s"
  have s1: "s1 = (replaceChar (fst found) (fst d) ty s)\<lparr> erc_pos := snd d \<rparr>"
    by (simp add: s1_def ensureTypeStep_def Let_def found_def d_def)
  have "\<exists>j<length (erc_chars s). canReplace cfg ty s j"
    using canReplace_exists[OF Suc.prems(1) _ low] len Suc.prems(2) by simp
  then have can: "canReplace cfg ty s (fst found)"
    unfolding found_def by (rule findReplacementIndex_good)
  have din: "fst d \<in> replacements pool cfg"
    unfolding d_def using pool(1) by (rule getRandomFromChars_repl)
  then have new: "typed_as ty (fst d)" using pool(2) replacements_sub by blast
  note g = good_step[OF Suc.prems(1) can new, where p = "snd d", folded s1]
  have "nat (minimums cfg ty - erc_counts s1 ty) = n" using g(3) Suc.prems(3) by simp
  from Suc.IH[OF g(2) _ this] g(1) Suc.prems(2)
  obtain s' where s': "ensureType cfg ty pool rs s1 = Some s'" "counts_exact s'" "length (erc_chars s') = L"
      "minimums cfg ty \<le> erc_counts s' ty"
      "\<forall>t. t \<noteq> ty \<longrightarrow> minimums cfg t \<le> erc_counts s1 t \<longrightarrow> minimums cfg t \<le> erc_counts s' t"
      "set (erc_chars s') \<subseteq> set (erc_chars s1) \<union> replacements pool cfg"
    by auto
  have run: "ensureType cfg ty pool rs s = Some s'"
    using low s'(1) by (subst ensureType.simps) (simp add: s1_def)
  have keep: "\<forall>t. t \<noteq> ty \<longrightarrow> minimums cfg t \<le> erc_counts s t \<longrightarrow> minimums cfg t \<le> erc_counts s' t"
    using g(4) s'(5) by blast
  have sub: "set (erc_chars s') \<subseteq> set (erc_chars s) \<union> replacements pool cfg"
    using s'(6) g(5) din by auto
  show ?case using run s'(2,3,4) keep sub by blast
qed

lemma symbol_chars_typed: "\<forall>c\<in>set getSymbolChars. typed_as TSymbols c"
  using symbol_pool by (auto simp: typed_as_def type_symbol[symmetric])

lemma number_chars_typed: "\<forall>c\<in>set getNumberChars. typed_as TNumbers c"
proof -
  have eq: "getNumberChars = ''0123456789''" unfolding getNumberChars_def by code_simp
  show ?thesis unfolding eq
    by (auto simp: typed_as_def type_number[symmetric] isNumber_def code_def)
qed

lemma minimums_nonneg: "0 \<le> minimums cfg t"
  by (cases t) (auto simp: minimums_def)

lemma ensureRequiredCharacters_total:
  assumes len: "required_total cfg \<le> length pw"
  shows "\<exists>pw' i'. ensureRequiredCharacters pw cfg rs i = Some (pw', i') \<and> length pw' = length pw
          \<and> (includeSymbols cfg \<longrightarrow> 2 \<le> length (filter isSymbol pw'))
          \<and> (includeNumbers cfg \<longrightarrow> 2 \<le> length (filter isNumber pw'))
          \<and> set pw' \<subseteq> set pw \<union> (if includeSymbols cfg then replacements getSymbolChars cfg else {})
                              \<union> (if includeNumbers cfg then replacements getNumberChars cfg else {})"
proof -
  define s0 where "s0 = \<lparr> erc_chars = pw, erc_counts = initialCounts pw, erc_pos = i \<rparr>"
  have ex0: "counts_exact s0" and len0: "length (erc_chars s0) = length pw"
    by (simp_all add: s0_def counts_exact_def)
  define r1 where "r1 = (if includeSymbols cfg then ensureType cfg TSymbols getSymbolChars rs s0 else Some s0)"
  have "\<exists>s1. r1 = Some s1 \<and> counts_exact s1 \<and> length (erc_chars s1) = length pw
          \<and> (includeSymbols cfg \<longrightarrow> 2 \<le> erc_counts s1 TSymbols)
          \<and> set (erc_chars s1) \<subseteq> set pw \<union> (if includeSymbols cfg then replacements getSymbolChars cfg else {})"
  proof (cases "includeSymbols cfg")
    case True
    have ne: "getSymbolChars \<noteq> []" by (simp add: getSymbolChars_def)
    from ensureType_total[OF ne symbol_chars_typed len ex0 len0 refl, of rs]
    obtain s1 where "ensureType cfg TSymbols getSymbolChars rs s0 = Some s1" "counts_exact s1"
      "length (erc_chars s1) = length pw" "minimums cfg TSymbols \<le> erc_counts s1 TSymbols"
      "set (erc_chars s1) \<subseteq> set (erc_chars s0) \<union> replacements getSymbolChars cfg"
      by blast
    then show ?thesis using True by (auto simp: r1_def minimums_def s0_def)
  next
    case False
    then show ?thesis using ex0 len0 by (auto simp: r1_def s0_def)
  qed
  then obtain s1 where s1: "r1 = Some s1" "counts_exact s1" "length (erc_chars s1) = length pw"
      "includeSymbols cfg \<longrightarrow> 2 \<le> erc_counts s1 TSymbols"
      "set (erc_chars s1) \<subseteq> set pw \<union> (if includeSymbols cfg then replacements getSymbolChars cfg else {})"
    by blast
  have sym1: "minimums cfg TSymbols \<le> erc_counts s1 TSymbols"
  proof (cases "includeSymbols cfg")
    case True then show ?thesis using s1(4) by (simp add: minimums_def)
  next
    case False
    have "0 \<le> initialCounts (erc_chars s1) TSymbols" by (simp add: initialCounts_def)
    then show ?thesis using False s1(2) by (simp add: minimums_def counts_exact_def)
  qed
  define r2 where "r2 = (if includeNumbers cfg then ensureType cfg TNumbers getNumberChars rs s1 else Some s1)"
  have "\<exists>s2. r2 = Some s2 \<and> counts_exact s2 \<and> length (erc_chars s2) = length pw
          \<and> (includeNumbers cfg \<longrightarrow> 2 \<le> erc_counts s2 TNumbers)
          \<and> minimums cfg TSymbols \<le> erc_counts s2 TSymbols
          \<and> set (erc_chars s2) \<subseteq> set (erc_chars s1) \<union> (if includeNumbers cfg then replacements getNumberChars cfg else {})"
  proof (cases "includeNumbers cfg")
    case True
    have ne: "getNumberChars \<noteq> []" by (simp add: getNumberChars_def)
    have len1: "required_total cfg \<le> length pw" by (rule len)
    from ensureType_total[OF ne number_chars_typed len1 s1(2) s1(3) refl, of rs]
    obtain s2 where s2: "ensureType cfg TNumbers getNumberChars rs s1 = Some s2" "counts_exact s2"
      "length (erc_chars s2) = length pw" "minimums cfg TNumbers \<le> erc_counts s2 TNumbers"
      "\<forall>t. t \<noteq> TNumbers \<longrightarrow> minimums cfg t \<le> erc_counts s1 t \<longrightarrow> minimums cfg t \<le> erc_counts s2 t"
      "set (erc_chars s2) \<subseteq> set (erc_chars s1) \<union> replacements getNumberChars cfg"
      by blast
    have "minimums cfg TSymbols \<le> erc_counts s2 TSymbols" using s2(5) sym1 by simp
    then show ?thesis using True s2 by (auto simp: r2_def minimums_def)
  next
    case False
    then show ?thesis using s1 sym1 by (auto simp: r2_def)
  qed
  then obtain s2 where s2: "r2 = Some s2" "counts_exact s2" "length (erc_chars s2) = length pw"
      "includeNumbers cfg \<longrightarrow> 2 \<le> erc_counts s2 TNumbers"
      "minimums cfg TSymbols \<le> erc_counts s2 TSymbols"
      "set (erc_chars s2) \<subseteq> set (erc_chars s1) \<union> (if includeNumbers cfg then replacements getNumberChars cfg else {})"
    by blast
  have run: "ensureRequiredCharacters pw cfg rs i = Some (erc_chars s2, erc_pos s2)"
    using s1(1) s2(1) by (simp add: ensureRequiredCharacters_def Let_def s0_def[symmetric] r1_def[symmetric] r2_def[symmetric])
  have cs: "erc_counts s2 TSymbols = int (length (filter isSymbol (erc_chars s2)))"
    and cn: "erc_counts s2 TNumbers = int (length (filter isNumber (erc_chars s2)))"
    using s2(2) by (simp_all add: counts_exact_def initialCounts_def)
  have a: "includeSymbols cfg \<longrightarrow> 2 \<le> length (filter isSymbol (erc_chars s2))"
    using s2(5) cs by (auto simp: minimums_def)
  have b: "includeNumbers cfg \<longrightarrow> 2 \<le> length (filter isNumber (erc_chars s2))"
    using s2(4) cn by auto
  have c: "set (erc_chars s2) \<subseteq> set pw \<union> (if includeSymbols cfg then replacements getSymbolChars cfg else {})
                              \<union> (if includeNumbers cfg then replacements getNumberChars cfg else {})"
    using s2(6) s1(5) by blast
  show ?thesis using run s2(3) a b c by blast
qed

lemma lowercase_chars_value: "getLowercaseChars = ''abcdefghijklmnopqrstuvwxyz''"
  unfolding getLowercaseChars_def by code_simp

lemma uppercase_chars_value: "getUppercaseChars = ''ABCDEFGHIJKLMNOPQRSTUVWXYZ''"
  unfolding getUppercaseChars_def by code_simp

lemma number_chars_value: "getNumberChars = ''0123456789''"
  unfolding getNumberChars_def by code_simp

lemma filterCharsForConfig_append: "filterCharsForConfig (xs @ ys) cfg = filterCharsForConfig xs cfg @ filterCharsForConfig ys cfg"
  by (simp add: filterCharsForConfig_def without_def Let_def)

lemma survivors:
  "CHR ''a'' \<in> set (filterCharsForConfig getLowercaseChars cfg)"
  "CHR ''A'' \<in> set (filterCharsForConfig getUppercaseChars cfg)"
  "CHR ''2'' \<in> set (filterCharsForConfig getNumberChars cfg)"
  "CHR ''!'' \<in> set (filterCharsForConfig getSymbolChars cfg)"
  unfolding lowercase_chars_value uppercase_chars_value number_chars_value
  by (simp_all add: filterCharsForConfig_def without_def Let_def getSymbolChars_def
      similarChars_def ambiguousChars_def)

lemma pool_nonempty: "buildAllowedCharacterPool cfg \<noteq> []"
  by (auto simp: buildAllowedCharacterPool_def Let_def lowercase_chars_value)

lemma replacements_filtered:
  "filterCharsForConfig cat cfg \<noteq> [] \<Longrightarrow> replacements cat cfg = set (filterCharsForConfig cat cfg)"
  by (simp add: replacements_def)

lemma pool_cases:
  fixes cfg :: config
  defines "pool \<equiv> (if includeLowercase cfg then getLowercaseChars else [])
               @ (if includeUppercase cfg then getUppercaseChars else [])
               @ (if includeNumbers cfg then getNumberChars else [])
               @ (if includeSymbols cfg then getSymbolChars else [])"
  assumes cat: "filterCharsForConfig cat cfg \<noteq> []"
    and part: "\<exists>xs ys. pool = xs @ cat @ ys"
  shows "replacements cat cfg \<subseteq> set (buildAllowedCharacterPool cfg)"
proof -
  obtain xs ys where xy: "pool = xs @ cat @ ys" using part by blast
  have "filterCharsForConfig [] cfg = []" by (simp add: filterCharsForConfig_def without_def Let_def)
  then have "cat \<noteq> []" using cat by auto
  then have ne: "length pool \<noteq> 0" by (simp add: xy)
  have sub: "set (filterCharsForConfig cat cfg) \<subseteq> set (filterCharsForConfig pool cfg)"
    by (auto simp: xy filterCharsForConfig_append)
  then have fne: "0 < length (filterCharsForConfig pool cfg)" using cat by auto
  have "buildAllowedCharacterPool cfg = filterCharsForConfig pool cfg"
    unfolding buildAllowedCharacterPool_def Let_def pool_def[symmetric] using ne fne by simp
  then show ?thesis using sub by (simp add: replacements_filtered[OF cat])
qed

lemma replacements_allowed:
  "includeLowercase cfg \<Longrightarrow> replacements getLowercaseChars cfg \<subseteq> set (buildAllowedCharacterPool cfg)"
  "includeUppercase cfg \<Longrightarrow> replacements getUppercaseChars cfg \<subseteq> set (buildAllowedCharacterPool cfg)"
  "includeNumbers cfg \<Longrightarrow> replacements getNumberChars cfg \<subseteq> set (buildAllowedCharacterPool cfg)"
  "includeSymbols cfg \<Longrightarrow> replacements getSymbolChars cfg \<subseteq> set (buildAllowedCharacterPool cfg)"
proof -
  have ne: "filterCharsForConfig getLowercaseChars cfg \<noteq> []" "filterCharsForConfig getUppercaseChars cfg \<noteq> []"
    "filterCharsForConfig getNumberChars cfg \<noteq> []" "filterCharsForConfig getSymbolChars cfg \<noteq> []"
    using survivors[of cfg] by auto
  let ?L = "if includeLowercase cfg then getLowercaseChars else []"
  let ?U = "if includeUppercase cfg then getUppercaseChars else []"
  let ?N = "if includeNumbers cfg then getNumberChars else []"
  let ?S = "if includeSymbols cfg then getSymbolChars else []"
  show "replacements getLowercaseChars cfg \<subseteq> set (buildAllowedCharacterPool cfg)" if "includeLowercase cfg"
  proof (rule pool_cases[OF ne(1)])
    have "?L @ ?U @ ?N @ ?S = [] @ getLowercaseChars @ (?U @ ?N @ ?S)" using that by simp
    then show "\<exists>xs ys. ?L @ ?U @ ?N @ ?S = xs @ getLowercaseChars @ ys" by blast
  qed
  show "replacements getUppercaseChars cfg \<subseteq> set (buildAllowedCharacterPool cfg)" if "includeUppercase cfg"
  proof (rule pool_cases[OF ne(2)])
    have "?L @ ?U @ ?N @ ?S = ?L @ getUppercaseChars @ (?N @ ?S)" using that by simp
    then show "\<exists>xs ys. ?L @ ?U @ ?N @ ?S = xs @ getUppercaseChars @ ys" by blast
  qed
  show "replacements getNumberChars cfg \<subseteq> set (buildAllowedCharacterPool cfg)" if "includeNumbers cfg"
  proof (rule pool_cases[OF ne(3)])
    have "?L @ ?U @ ?N @ ?S = (?L @ ?U) @ getNumberChars @ ?S" using that by simp
    then show "\<exists>xs ys. ?L @ ?U @ ?N @ ?S = xs @ getNumberChars @ ys" by blast
  qed
  show "replacements getSymbolChars cfg \<subseteq> set (buildAllowedCharacterPool cfg)" if "includeSymbols cfg"
  proof (rule pool_cases[OF ne(4)])
    have "?L @ ?U @ ?N @ ?S = (?L @ ?U @ ?N) @ getSymbolChars @ []" using that by simp
    then show "\<exists>xs ys. ?L @ ?U @ ?N @ ?S = xs @ getSymbolChars @ ys" by blast
  qed
qed

lemma sanitizeChars_props:
  "pool \<noteq> [] \<Longrightarrow> length (fst (sanitizeChars pw pool rs i)) = length pw \<and>
     set (fst (sanitizeChars pw pool rs i)) \<subseteq> set pool"
proof (induction pw arbitrary: i)
  case Nil then show ?case by simp
next
  case (Cons c cs)
  have "fst (getRandomFromPool pool rs i) \<in> set pool" using Cons.prems by (rule getRandomFromPool_in)
  then show ?case using Cons by (auto simp: Let_def)
qed

lemma sanitize_total:
  assumes "length_of cfg \<le> length pw"
  shows "\<exists>pw' i'. sanitizeToAllowedCharacters pw cfg rs i = Inr (pw', i') \<and> length pw' = length_of cfg
           \<and> set pw' \<subseteq> set (buildAllowedCharacterPool cfg)"
proof -
  note p = sanitizeChars_props[OF pool_nonempty, of pw cfg rs i]
  have "set (take (length_of cfg) (fst (sanitizeChars pw (buildAllowedCharacterPool cfg) rs i)))
        \<subseteq> set (buildAllowedCharacterPool cfg)"
    using p set_take_subset by fastforce
  then show ?thesis using p assms pool_nonempty[of cfg]
    by (simp add: sanitizeToAllowedCharacters_def Let_def)
qed

lemma ensureCategory_props:
  assumes "valid_draws rs" "pool \<noteq> []"
  shows "length (fst (ensureCategory req pred pool cfg rs st)) = length (fst st) \<and>
         set (fst (ensureCategory req pred pool cfg rs st)) \<subseteq> set (fst st) \<union> (if req then replacements pool cfg else {})"
proof (cases "req \<and> \<not> list_ex pred (fst st) \<and> length (fst st) \<noteq> 0")
  case True
  define index where "index = randomIndex rs (snd st) (length (fst st))"
  define d where "d = getRandomFromChars pool cfg rs (snd st + 1)"
  have idx: "index < length (fst st)" unfolding index_def using True assms(1) by (intro randomIndex_lt) auto
  have din: "fst d \<in> replacements pool cfg" unfolding d_def using assms(2) by (rule getRandomFromChars_repl)
  have eq: "ensureCategory req pred pool cfg rs st = (array_set (fst st) index (fst d), snd d)"
    using True by (simp add: ensureCategory_def Let_def index_def d_def)
  have upd: "set ((fst st)[index := fst d]) \<subseteq> insert (fst d) (set (fst st))" by (rule set_update_subset_insert)
  from True have req: "req" by simp
  show ?thesis unfolding eq using idx din upd req by (auto simp: array_set_def)
next
  case False
  then have "ensureCategory req pred pool cfg rs st = st" by (auto simp: ensureCategory_def Let_def)
  then show ?thesis by simp
qed

lemma categories_props:
  assumes v: "valid_draws rs" and sub: "set pw \<subseteq> set (buildAllowedCharacterPool cfg)"
  shows "length (fst (markov_ensureCharacterCategories pw cfg rs i)) = length pw \<and>
         set (fst (markov_ensureCharacterCategories pw cfg rs i)) \<subseteq> set (buildAllowedCharacterPool cfg)"
proof -
  define s1 where "s1 = ensureCategory (includeUppercase cfg) isUppercase getUppercaseChars cfg rs (pw, i)"
  define s2 where "s2 = ensureCategory (includeLowercase cfg) isLowercase getLowercaseChars cfg rs s1"
  define s3 where "s3 = ensureCategory (includeNumbers cfg) isNumber getNumberChars cfg rs s2"
  define s4 where "s4 = ensureCategory (includeSymbols cfg) isSymbol getSymbolChars cfg rs s3"
  have ne: "getUppercaseChars \<noteq> []" "getLowercaseChars \<noteq> []" "getNumberChars \<noteq> []" "getSymbolChars \<noteq> []"
    by (simp_all add: uppercase_chars_value lowercase_chars_value number_chars_value getSymbolChars_def)
  have p1: "length (fst s1) = length pw \<and> set (fst s1) \<subseteq> set (buildAllowedCharacterPool cfg)"
    using ensureCategory_props[OF v ne(1), of "includeUppercase cfg" isUppercase cfg "(pw, i)"] sub replacements_allowed(2)[of cfg]
    by (auto simp: s1_def split: if_splits)
  have p2: "length (fst s2) = length pw \<and> set (fst s2) \<subseteq> set (buildAllowedCharacterPool cfg)"
    using ensureCategory_props[OF v ne(2), of "includeLowercase cfg" isLowercase cfg s1] p1 replacements_allowed(1)[of cfg]
    by (auto simp: s2_def split: if_splits)
  have p3: "length (fst s3) = length pw \<and> set (fst s3) \<subseteq> set (buildAllowedCharacterPool cfg)"
    using ensureCategory_props[OF v ne(3), of "includeNumbers cfg" isNumber cfg s2] p2 replacements_allowed(3)[of cfg]
    by (auto simp: s3_def split: if_splits)
  have p4: "length (fst s4) = length pw \<and> set (fst s4) \<subseteq> set (buildAllowedCharacterPool cfg)"
    using ensureCategory_props[OF v ne(4), of "includeSymbols cfg" isSymbol cfg s3] p3 replacements_allowed(4)[of cfg]
    by (auto simp: s4_def split: if_splits)
  have "markov_ensureCharacterCategories pw cfg rs i = s4"
    by (simp add: markov_ensureCharacterCategories_def s4_def s3_def s2_def s1_def)
  then show ?thesis using p4 by simp
qed

lemma appendRandomCharacters_length: "length (fst (appendRandomCharacters k cfg rs i)) = k"
  by (induction k arbitrary: i) (auto simp: Let_def)

lemma base_total:
  assumes "model st \<noteq> []"
  shows "\<exists>pw i'. markov_generateBasePassword st cfg rs i = Inr (pw, i') \<and> length_of cfg \<le> length pw"
  using assms by (simp add: markov_generateBasePassword_def Let_def appendRandomCharacters_length)

lemma addEntropy_full: "length pw = length_of cfg \<Longrightarrow> markov_addEntropy pw cfg rs i = (pw, i)"
  by (simp add: markov_addEntropy_def Let_def)

lemma markov_generatePassword_total:
  assumes trained: "model st \<noteq> []"
    and len: "required_total cfg \<le> length_of cfg"
    and v: "valid_draws rs"
  shows "\<exists>r. markov_generatePassword st cfg rs i = Some (Inr r)
           \<and> length (password r) = length_of cfg
           \<and> set (password r) \<subseteq> set (buildAllowedCharacterPool cfg)
           \<and> (includeSymbols cfg \<longrightarrow> 2 \<le> length (filter isSymbol (password r)))
           \<and> (includeNumbers cfg \<longrightarrow> 2 \<le> length (filter isNumber (password r)))
           \<and> entropy r = calculateEntropy (password r)
           \<and> timeToCrack r = markov_calculateTimeToCrack (password r) cfg"
proof -
  obtain pw0 i0 where base: "markov_generateBasePassword st cfg rs i = Inr (pw0, i0)"
      and l0: "length_of cfg \<le> length pw0"
    using base_total[OF trained] by blast
  obtain pw1 i1 where san: "sanitizeToAllowedCharacters pw0 cfg rs i0 = Inr (pw1, i1)"
      and l1: "length pw1 = length_of cfg" and a1: "set pw1 \<subseteq> set (buildAllowedCharacterPool cfg)"
    using sanitize_total[OF l0] by blast
  define s2 where "s2 = markov_ensureCharacterCategories pw1 cfg rs i1"
  have l2: "length (fst s2) = length_of cfg" and a2: "set (fst s2) \<subseteq> set (buildAllowedCharacterPool cfg)"
    using categories_props[OF v a1, of i1] l1 by (simp_all add: s2_def)
  have "required_total cfg \<le> length (fst s2)" using len l2 by simp
  from ensureRequiredCharacters_total[OF this, of rs "snd s2"]
  obtain pw3 i3 where req: "ensureRequiredCharacters (fst s2) cfg rs (snd s2) = Some (pw3, i3)"
      and l3: "length pw3 = length (fst s2)"
      and sy: "includeSymbols cfg \<longrightarrow> 2 \<le> length (filter isSymbol pw3)"
      and nu: "includeNumbers cfg \<longrightarrow> 2 \<le> length (filter isNumber pw3)"
      and a3: "set pw3 \<subseteq> set (fst s2) \<union> (if includeSymbols cfg then replacements getSymbolChars cfg else {})
                              \<union> (if includeNumbers cfg then replacements getNumberChars cfg else {})"
    by blast
  have a3': "set pw3 \<subseteq> set (buildAllowedCharacterPool cfg)"
    using a3 a2 replacements_allowed(3,4)[of cfg] by (auto split: if_splits)
  have l3': "length pw3 = length_of cfg" using l3 l2 by simp
  have imp: "applySecurityImprovements pw0 cfg rs i0 = Some (Inr (pw3, i3))"
    using addEntropy_full[OF l3', of rs i3]
    by (simp add: applySecurityImprovements_def san Let_def s2_def[symmetric] req)
  have "markov_generatePassword st cfg rs i =
          Some (Inr \<lparr> password = pw3, entropy = calculateEntropy pw3,
                      timeToCrack = markov_calculateTimeToCrack pw3 cfg,
                      strengthLevel = determineStrengthLevel (calculateEntropy pw3),
                      generationMethod = Markov \<rparr>)"
    by (simp add: markov_generatePassword_def base imp Let_def)
  then show ?thesis using l3' a3' sy nu by simp
qed

text \<open>
  C5 (as amended): on a trained model and a configuration whose length is at least the
  sum of the enforced minimums, every call of the Markov generator's \<open>generatePassword\<close>
  returns, and the returned password has at least two symbol characters when
  \<open>includeSymbols\<close> is set and at least two digits when \<open>includeNumbers\<close> is set.
\<close>

theorem markov_minimum_symbols_and_numbers:
  assumes "model st \<noteq> []" and "required_total cfg \<le> length_of cfg" and "valid_draws rs"
  shows "\<exists>r. markov_generatePassword st cfg rs i = Some (Inr r)
           \<and> (includeSymbols cfg \<longrightarrow> 2 \<le> length (filter isSymbol (password r)))
           \<and> (includeNumbers cfg \<longrightarrow> 2 \<le> length (filter isNumber (password r)))"
  using markov_generatePassword_total[OF assms, of i] by blast

theorem markov_minimum_symbols_and_numbers_witness:
  "map_option (map_sum id password) (markov_generatePassword model_ab cfg_symbols2 (constant_draws 0) 0)
     = Some (Inr ''!!'') \<and> 2 \<le> length (filter isSymbol ''!!'')"
proof -
  have h1: "model model_ab \<noteq> []" by (simp add: model_ab_value)
  have h2: "required_total cfg_symbols2 \<le> length_of cfg_symbols2"
    by (simp add: required_total_def cfg_symbols2_def)
  have h3: "valid_draws (constant_draws 0)" by (rule valid_constant) simp_all
  from markov_minimum_symbols_and_numbers [OF h1 h2 h3, of 0]
  obtain r where r: "markov_generatePassword model_ab cfg_symbols2 (constant_draws 0) 0 = Some (Inr r)"
    and s: "includeSymbols cfg_symbols2 \<longrightarrow> 2 \<le> length (filter isSymbol (password r))" by blast
  have "password r = ''!!''" using symbols2_generated r by simp
  then show ?thesis using r s by (simp add: cfg_symbols2_def)
qed

text \<open>Under the same conditions the password has the configured length and every
  character of it is in the allowed pool.\<close>

lemma markov_password_length_and_pool:
  assumes "model st \<noteq> []" and "required_total cfg \<le> length_of cfg" and "valid_draws rs"
  shows "\<exists>r. markov_generatePassword st cfg rs i = Some (Inr r)
           \<and> length (password r) = length_of cfg
           \<and> set (password r) \<subseteq> set (buildAllowedCharacterPool cfg)"
  using markov_generatePassword_total[OF assms, of i] by blast

section \<open>Divergence of the Markov generator on length one\<close>

lemma ensureCategory_symbol:
  assumes v: "valid_draws rs" and ne: "fst st \<noteq> []"
  shows "list_ex isSymbol (fst (ensureCategory True isSymbol getSymbolChars cfg rs st))"
proof (cases "list_ex isSymbol (fst st)")
  case True
  then show ?thesis by (simp add: ensureCategory_def Let_def)
next
  case False
  define index where "index = randomIndex rs (snd st) (length (fst st))"
  define d where "d = getRandomFromChars getSymbolChars cfg rs (snd st + 1)"
  have idx: "index < length (fst st)" unfolding index_def using ne v by (intro randomIndex_lt) auto
  have "fst d \<in> set getSymbolChars" unfolding d_def
    by (rule getRandomFromChars_in) (simp add: getSymbolChars_def)
  then have sym: "isSymbol (fst d)" by (rule symbol_pool)
  have eq: "fst (ensureCategory True isSymbol getSymbolChars cfg rs st) = (fst st)[index := fst d]"
    using False ne idx by (simp add: ensureCategory_def Let_def index_def d_def array_set_def)
  have "fst d \<in> set ((fst st)[index := fst d])" using idx by (rule set_update_memI)
  then show ?thesis unfolding eq using sym by (auto simp: list_ex_iff)
qed

text \<open>
  C7: a call of \<open>generatePassword\<close> terminates for every trained model, every
  configuration of positive length and every sequence of draws. The Markov generator
  breaks this: with length 1 and \<open>includeSymbols\<close> the loop of \<open>ensureType\<close> needs
  two symbols in an array of one character; no index can be replaced, the unconditional
  random index replaces the one symbol by a symbol, the count stays at 1, and the loop
  never ends, on every trained model and whatever the draws.
\<close>

theorem markov_generatePassword_diverges:
  assumes trained: "model st \<noteq> []" and one: "length_of cfg = 1" and inc: "includeSymbols cfg"
    and v: "valid_draws rs"
  shows "markov_generatePassword st cfg rs i = None"
proof -
  obtain pw0 i0 where base: "markov_generateBasePassword st cfg rs i = Inr (pw0, i0)"
      and l0: "length_of cfg \<le> length pw0"
    using base_total[OF trained] by blast
  obtain pw1 i1 where san: "sanitizeToAllowedCharacters pw0 cfg rs i0 = Inr (pw1, i1)"
      and l1: "length pw1 = length_of cfg"
    using sanitize_total[OF l0] by blast
  define s1 where "s1 = ensureCategory (includeUppercase cfg) isUppercase getUppercaseChars cfg rs (pw1, i1)"
  define s2 where "s2 = ensureCategory (includeLowercase cfg) isLowercase getLowercaseChars cfg rs s1"
  define s3 where "s3 = ensureCategory (includeNumbers cfg) isNumber getNumberChars cfg rs s2"
  define s4 where "s4 = ensureCategory True isSymbol getSymbolChars cfg rs s3"
  have ne: "getUppercaseChars \<noteq> []" "getLowercaseChars \<noteq> []" "getNumberChars \<noteq> []" "getSymbolChars \<noteq> []"
    by (simp_all add: uppercase_chars_value lowercase_chars_value number_chars_value getSymbolChars_def)
  have "length (fst s1) = 1"
    using ensureCategory_props[OF v ne(1), of "includeUppercase cfg" isUppercase cfg "(pw1, i1)"] l1 one
    by (simp add: s1_def)
  then have "length (fst s2) = 1"
    using ensureCategory_props[OF v ne(2), of "includeLowercase cfg" isLowercase cfg s1] by (simp add: s2_def)
  then have l3: "length (fst s3) = 1"
    using ensureCategory_props[OF v ne(3), of "includeNumbers cfg" isNumber cfg s2] by (simp add: s3_def)
  then have l4: "length (fst s4) = 1"
    using ensureCategory_props[OF v ne(4), of True isSymbol cfg s3] by (simp add: s4_def)
  have "fst s3 \<noteq> []" using l3 by auto
  then have "list_ex isSymbol (fst s4)" unfolding s4_def using v by (intro ensureCategory_symbol)
  then obtain c where c: "fst s4 = [c]" "isSymbol c"
    using l4 by (cases "fst s4") auto
  have cat: "markov_ensureCharacterCategories pw1 cfg rs i1 = s4"
    using inc by (simp add: markov_ensureCharacterCategories_def s4_def s3_def s2_def s1_def)
  have "stuck \<lparr> erc_chars = fst s4, erc_counts = initialCounts (fst s4), erc_pos = snd s4 \<rparr>"
    using c by (simp add: stuck_def initialCounts_def)
  from stuck_diverges[OF inc v this]
  have req: "ensureRequiredCharacters (fst s4) cfg rs (snd s4) = None"
    by (simp add: ensureRequiredCharacters_def inc)
  have "applySecurityImprovements pw0 cfg rs i0 = None"
    by (simp add: applySecurityImprovements_def san cat req)
  then show ?thesis by (simp add: markov_generatePassword_def base)
qed

theorem markov_generatePassword_diverges_witness:
  "markov_generatePassword model_ab cfg_symbols1 (constant_draws 0) 0 = None"
proof -
  have h1: "model model_ab \<noteq> []" by (simp add: model_ab_value)
  have h2: "length_of cfg_symbols1 = 1" and h3: "includeSymbols cfg_symbols1"
    by (simp_all add: cfg_symbols1_def)
  have h4: "valid_draws (constant_draws 0)" by (rule valid_constant) simp_all
  from markov_generatePassword_diverges [OF h1 h2 h3 h4] show ?thesis .
qed

section \<open>The two time-to-crack estimators\<close>

lemma timeBreakdown_units: "unit_conversions (timeBreakdown x)"
  by (simp add: unit_conversions_def timeBreakdown_def)

lemma random_seconds:
  "seconds (random_calculateTimeToCrack e) = js_div (js_pow (Fin 2) e) (Fin (10 ^ 12))"
  by (simp add: random_calculateTimeToCrack_def timeBreakdown_def Let_def pow_10_12 del: js_pow.simps)

lemma markov_seconds:
  "seconds (markov_calculateTimeToCrack pw cfg) =
     (if real (max (max (markov_getCharacterSetSize cfg) (card (set pw))) 1) ^ length pw < overflow_limit
      then Fin (real (max (max (markov_getCharacterSetSize cfg) (card (set pw))) 1) ^ length pw / 10 ^ 12)
      else PInf)"
proof -
  define n where "n = max (max (markov_getCharacterSetSize cfg) (card (set pw))) 1"
  have n: "1 \<le> n" by (simp add: n_def)
  have sz: "getCharacterSetSizeFromPassword pw = card (set pw)"
    by (simp add: getCharacterSetSizeFromPassword_def length_remdups_card_conv)
  have mx: "js_max (js_max (Fin (real (markov_getCharacterSetSize cfg))) (Fin (real (card (set pw))))) (Fin 1)
            = Fin (real n)"
    by (simp add: n_def max_def)
  have pos: "0 < real n ^ length pw" using n by simp
  have pw: "js_pow (Fin (real n)) (Fin (real (length pw))) = overflow (Fin (real n ^ length pw))"
    using n by (auto simp: powr_realpow overflow_small simp del: overflow.simps)
  have ov: "overflow (Fin (real n ^ length pw)) =
            (if real n ^ length pw < overflow_limit then Fin (real n ^ length pw) else PInf)"
  proof -
    have "\<not> real n ^ length pw \<le> - overflow_limit"
      using pos overflow_limit_bounds(3) by linarith
    then show ?thesis by auto
  qed
  show ?thesis
    unfolding markov_calculateTimeToCrack_def Let_def sz mx pw ov pow_10_12 n_def[symmetric]
    by (simp add: timeBreakdown_def)
qed

lemma random_result:
  "random_generatePassword cfg rs i = Some (Inr r) \<Longrightarrow>
   entropy r = calculateEntropy (password r) \<and> timeToCrack r = random_calculateTimeToCrack (entropy r)"
  by (auto simp: random_generatePassword_def Let_def split: sum.splits option.splits)

lemma markov_result:
  "markov_generatePassword st cfg rs i = Some (Inr r) \<Longrightarrow>
   entropy r = calculateEntropy (password r) \<and> timeToCrack r = markov_calculateTimeToCrack (password r) cfg"
  by (auto simp: markov_generatePassword_def Let_def split: sum.splits option.splits)

text \<open>
  C3 (as amended): the heuristic generator reports \<open>seconds = 2^entropy / 10^12\<close>, with
  the entropy it reports; the Markov generator reports
  \<open>seconds = max(configured set size, distinct characters, 1)^length / 10^12\<close>, computed
  from the password and the configuration (\<open>Infinity\<close> once the power overflows the
  doubles); in both, minutes, hours, days and years are the seconds divided by 60, 3600,
  86400 and \<open>365.25 * 86400\<close>.
\<close>

theorem time_to_crack_estimators:
  "(random_generatePassword cfg rs i = Some (Inr r) \<longrightarrow>
      seconds (timeToCrack r) = js_div (js_pow (Fin 2) (entropy r)) (Fin (10 ^ 12)) \<and>
      unit_conversions (timeToCrack r)) \<and>
   (markov_generatePassword st cfg rs i = Some (Inr r') \<longrightarrow>
      seconds (timeToCrack r') =
        (if real (max (max (markov_getCharacterSetSize cfg) (card (set (password r')))) 1)
               ^ length (password r') < overflow_limit
         then Fin (real (max (max (markov_getCharacterSetSize cfg) (card (set (password r')))) 1)
               ^ length (password r') / 10 ^ 12)
         else PInf) \<and>
      unit_conversions (timeToCrack r'))"
proof (intro conjI impI)
  assume "random_generatePassword cfg rs i = Some (Inr r)"
  then have t: "timeToCrack r = random_calculateTimeToCrack (entropy r)" using random_result by blast
  show "seconds (timeToCrack r) = js_div (js_pow (Fin 2) (entropy r)) (Fin (10 ^ 12))"
    unfolding t by (rule random_seconds)
  show "unit_conversions (timeToCrack r)"
    unfolding t random_calculateTimeToCrack_def Let_def by (rule timeBreakdown_units)
next
  assume "markov_generatePassword st cfg rs i = Some (Inr r')"
  then have t: "timeToCrack r' = markov_calculateTimeToCrack (password r') cfg" using markov_result by blast
  show "seconds (timeToCrack r') =
        (if real (max (max (markov_getCharacterSetSize cfg) (card (set (password r')))) 1)
               ^ length (password r') < overflow_limit
         then Fin (real (max (max (markov_getCharacterSetSize cfg) (card (set (password r')))) 1)
               ^ length (password r') / 10 ^ 12)
         else PInf)"
    unfolding t by (rule markov_seconds)
  show "unit_conversions (timeToCrack r')"
    unfolding t markov_calculateTimeToCrack_def Let_def by (rule timeBreakdown_units)
qed

theorem time_to_crack_estimators_witness:
  "map_option (map_sum id (\<lambda>r. seconds (timeToCrack r) = js_div (js_pow (Fin 2) (entropy r)) (Fin (10 ^ 12))))
     (random_generatePassword cfg_lower8 (constant_draws 0) 0) = Some (Inr True) \<and>
   map_option (map_sum id (\<lambda>r. seconds (timeToCrack r)))
     (markov_generatePassword model_ab cfg_symbols2 (constant_draws 0) 0) = Some (Inr (Fin (676 / 10 ^ 12)))"
proof -
  obtain r where r: "random_generatePassword cfg_lower8 (constant_draws 0) 0 = Some (Inr r)"
    using lower8_generated by (cases "random_generatePassword cfg_lower8 (constant_draws 0) 0") (auto simp: map_sum_def split: sum.splits)
  obtain r' where r': "markov_generatePassword model_ab cfg_symbols2 (constant_draws 0) 0 = Some (Inr r')"
    and p: "password r' = ''!!''"
    using symbols2_generated by (cases "markov_generatePassword model_ab cfg_symbols2 (constant_draws 0) 0") (auto simp: map_sum_def split: sum.splits)
  from time_to_crack_estimators [of cfg_lower8 "constant_draws 0" 0 r model_ab r'] r
  have a: "seconds (timeToCrack r) = js_div (js_pow (Fin 2) (entropy r)) (Fin (10 ^ 12))" by blast
  from time_to_crack_estimators [of cfg_symbols2 "constant_draws 0" 0 _ model_ab r'] r'
  have "seconds (timeToCrack r') =
        (if real (max (max (markov_getCharacterSetSize cfg_symbols2) (card (set (password r')))) 1)
               ^ length (password r') < overflow_limit
         then Fin (real (max (max (markov_getCharacterSetSize cfg_symbols2) (card (set (password r')))) 1)
               ^ length (password r') / 10 ^ 12)
         else PInf)" by blast
  moreover have "(676::real) < overflow_limit" by (simp add: overflow_limit_def)
  ultimately have b: "seconds (timeToCrack r') = Fin (676 / 10 ^ 12)"
    by (simp add: p markov_getCharacterSetSize_def cfg_symbols2_def getSymbolChars_def)
  show ?thesis using a b by (simp add: r r')
qed

text \<open>The claim as stated fails on the Markov generator: it returns the password
  \<open>!!\<close> with entropy 10 and \<open>26^2 / 10^12\<close> seconds, where \<open>2^entropy / 10^12\<close>, the
  value of the heuristic estimator on the same password, is \<open>1024 / 10^12\<close>.\<close>

theorem markov_time_to_crack_counterexample:
  "map_option (map_sum id (\<lambda>r. (password r, entropy r, seconds (timeToCrack r))))
     (markov_generatePassword model_ab cfg_symbols2 (constant_draws 0) 0)
     = Some (Inr (''!!'', Fin 10, Fin (676 / 10 ^ 12))) \<and>
   js_div (js_pow (Fin 2) (Fin 10)) (Fin (10 ^ 12)) = Fin (1024 / 10 ^ 12) \<and>
   seconds (random_calculateTimeToCrack (calculateEntropy ''!!'')) = Fin (1024 / 10 ^ 12)"
proof -
  have "js_pow (Fin 2) (Fin 10) = Fin 1024"
  proof -
    have "(2::real) powr 10 = 2 ^ 10" using powr_realpow[of "2::real" 10] by simp
    then show ?thesis by (simp add: overflow_small del: overflow.simps)
  qed
  then have "js_div (js_pow (Fin 2) (Fin 10)) (Fin (10 ^ 12)) = Fin (1024 / 10 ^ 12)"
    by simp
  then show ?thesis
    using symbols2_generated symbols2_heuristic_seconds by (simp add: symbols2_entropy del: js_pow.simps)
qed

section \<open>Properties of the comparison analyzer\<close>

lemma overflow_NaN_iff: "overflow x = NaN \<longleftrightarrow> x = NaN"
  by (cases x) auto

lemma js_minus_self: "js_minus x x = (if is_finite x then Fin 0 else NaN)"
  using overflow_limit_bounds(3) by (cases x) (auto simp: js_minus_def js_sub_def is_finite_def)

lemma js_lt_irrefl: "\<not> js_lt x x"
  by (cases x) auto

lemma js_gt_irrefl: "\<not> js_gt x x"
  by (simp add: js_gt_def js_lt_irrefl)

lemma compareMetric_self:
  "better (compareMetric x x) = RandomApproach"
  "difference (compareMetric x x) = (if is_finite x then Fin 0 else NaN)"
  by (simp_all add: compareMetric_def js_gt_irrefl js_minus_self)

lemma math_min_ok: "length xs \<le> n \<Longrightarrow> math_min n xs = Inr (foldl js_min PInf xs)"
  by (simp add: math_min_def)

lemma math_max_ok: "length xs \<le> n \<Longrightarrow> math_max n xs = Inr (foldl js_max NInf xs)"
  by (simp add: math_max_def)

lemma calculateStatistics_ok:
  assumes "length B \<le> n"
  shows "\<exists>s. calculateStatistics n B = Inr s \<and>
           es_average (entropyStats s) = js_over (js_total (map entropy B)) (Fin (real (length B))) \<and>
           ts_average (crackingTime s) =
             js_over (js_total (map (\<lambda>p. years (timeToCrack p)) B)) (Fin (real (length B))) \<and>
           readabilityScore s = calculateReadabilityScore B \<and>
           securityCompliance s = calculateSecurityCompliance B"
  using assms
  by (simp add: calculateStatistics_def calculateEntropyStatistics_def calculateTimeStatistics_def
      math_min_ok math_max_ok Let_def)

lemma calculateStatistics_error:
  "n < length B \<Longrightarrow> calculateStatistics n B = Inl RangeError"
  by (simp add: calculateStatistics_def calculateEntropyStatistics_def math_min_def Let_def)

text \<open>A batch longer than the engine's limit on arguments ends \<open>compareApproaches\<close> with
  the \<open>RangeError\<close> of \<open>Math.min\<close>.\<close>

lemma compareApproaches_error:
  "n < length B \<Longrightarrow> compareApproaches n B B = Inl RangeError"
  by (simp add: compareApproaches_def calculateStatistics_error)

lemma sum_points_le: "sum_list (map (\<lambda>p. readabilityPoints (password p)) B) \<le> 6 * length B"
proof (induction B)
  case Nil then show ?case by simp
next
  case (Cons p B)
  have "readabilityPoints (password p) \<le> 6" by (simp add: readabilityPoints_def)
  then show ?case using Cons by simp
qed

lemma averageScore_value:
  "averageScore (calculateReadabilityScore B) =
     (if B = [] then NaN
      else Fin (real (sum_list (map (\<lambda>p. readabilityPoints (password p)) B)) / real (length B)))"
proof (cases "B = []")
  case True
  then show ?thesis by (simp add: calculateReadabilityScore_def js_over_def)
next
  case False
  define t where "t = sum_list (map (\<lambda>p. readabilityPoints (password p)) B)"
  have n: "0 < length B" using False by simp
  have "real t \<le> 6 * real (length B)" using sum_points_le[of B] unfolding t_def
    by (metis of_nat_le_iff of_nat_mult of_nat_numeral)
  then have "real t / real (length B) \<le> 6" using n by (simp add: pos_divide_le_eq)
  moreover have "0 \<le> real t / real (length B)" by simp
  ultimately have "\<bar>real t / real (length B)\<bar> \<le> 2 ^ 1023" by simp
  then have "overflow (Fin (real t / real (length B))) = Fin (real t / real (length B))"
    by (rule overflow_small)
  then show ?thesis using False n
    by (simp add: calculateReadabilityScore_def js_over_def t_def Let_def del: overflow.simps)
qed

lemma bothRequirements_value:
  "\<exists>x. bothRequirementsMetPercentage (calculateSecurityCompliance B) = (if B = [] then NaN else Fin x)"
proof (cases "B = []")
  case True
  then show ?thesis by (simp add: calculateSecurityCompliance_def js_over_def js_times_def)
next
  case False
  define k where "k = length (filter (\<lambda>p. js_ge (entropy p) (Fin 60) \<and> js_ge (years (timeToCrack p)) (Fin 10)) B)"
  have k: "k \<le> length B" unfolding k_def by simp
  have n: "0 < length B" using False by simp
  define x where "x = real k / real (length B)"
  have q: "x \<le> 1" "0 \<le> x" using k n by (simp_all add: x_def)
  then have "\<bar>x\<bar> \<le> 2 ^ 1023" by simp
  then have o1: "overflow (Fin x) = Fin x" by (rule overflow_small)
  have "x * 100 \<le> 100" "0 \<le> x * 100" using q by linarith+
  then have "\<bar>x * 100\<bar> \<le> 2 ^ 1023" by simp
  then have o2: "overflow (Fin (x * 100)) = Fin (x * 100)" by (rule overflow_small)
  have "js_over (Fin (real k)) (Fin (real (length B))) = Fin x"
    using n o1 by (simp add: js_over_def x_def del: overflow.simps)
  then have "js_times (js_over (Fin (real k)) (Fin (real (length B)))) (Fin 100) = Fin (x * 100)"
    using o2 by (simp add: js_times_def del: overflow.simps)
  then have "bothRequirementsMetPercentage (calculateSecurityCompliance B) = Fin (x * 100)"
    by (simp add: calculateSecurityCompliance_def Let_def k_def)
  then show ?thesis using False by auto
qed

lemma generateRecommendations_self:
  "overallWinner (generateRecommendations s s) = RandomApproach"
  by (simp add: generateRecommendations_def Let_def js_gt_irrefl)

lemma compare_self:
  assumes "length B \<le> maxArguments"
  shows "\<exists>c. compareApproaches maxArguments B B = Inr c \<and>
     better (entropyComparison (comparison c)) = RandomApproach \<and>
     better (timeComparison (comparison c)) = RandomApproach \<and>
     better (readabilityComparison (comparison c)) = RandomApproach \<and>
     better (securityComplianceComparison (comparison c)) = RandomApproach \<and>
     overallWinner (ca_recommendations c) = RandomApproach \<and>
     difference (entropyComparison (comparison c)) =
       (if is_finite (js_over (js_total (map entropy B)) (Fin (real (length B)))) then Fin 0 else NaN) \<and>
     difference (timeComparison (comparison c)) =
       (if is_finite (js_over (js_total (map (\<lambda>p. years (timeToCrack p)) B)) (Fin (real (length B))))
        then Fin 0 else NaN) \<and>
     difference (readabilityComparison (comparison c)) = (if B = [] then NaN else Fin 0) \<and>
     difference (securityComplianceComparison (comparison c)) = (if B = [] then NaN else Fin 0)"
proof -
  obtain s where s: "calculateStatistics maxArguments B = Inr s"
    and e: "es_average (entropyStats s) = js_over (js_total (map entropy B)) (Fin (real (length B)))"
    and t: "ts_average (crackingTime s) =
             js_over (js_total (map (\<lambda>p. years (timeToCrack p)) B)) (Fin (real (length B)))"
    and r: "readabilityScore s = calculateReadabilityScore B"
    and c: "securityCompliance s = calculateSecurityCompliance B"
    using calculateStatistics_ok[OF assms] by blast
  obtain x where x: "bothRequirementsMetPercentage (calculateSecurityCompliance B) = (if B = [] then NaN else Fin x)"
    using bothRequirements_value by blast
  have rd: "is_finite (averageScore (calculateReadabilityScore B)) \<longleftrightarrow> B \<noteq> []"
    by (simp add: averageScore_value is_finite_def)
  have cd: "is_finite (bothRequirementsMetPercentage (calculateSecurityCompliance B)) \<longleftrightarrow> B \<noteq> []"
    by (simp add: x is_finite_def)
  show ?thesis
    by (simp add: compareApproaches_def s generateComparison_def compareMetric_self
        generateRecommendations_self e t r c rd cd)
qed


lemma bounded_values: "list_all (bounded_by M) xs \<Longrightarrow> \<exists>rs. xs = map Fin rs \<and> (\<forall>r\<in>set rs. \<bar>r\<bar> \<le> M)"
proof (induction xs)
  case Nil then show ?case by simp
next
  case (Cons x xs)
  then obtain r rs where "x = Fin r" "\<bar>r\<bar> \<le> M" "xs = map Fin rs" "\<forall>r\<in>set rs. \<bar>r\<bar> \<le> M"
    by (cases x) (auto simp: bounded_by_def)
  then show ?case by (intro exI[of _ "r # rs"]) simp
qed

lemma foldl_plus_bounded:
  assumes "\<forall>r\<in>set rs. \<bar>r\<bar> \<le> M" "\<bar>a\<bar> + real (length rs) * M < overflow_limit"
  shows "foldl js_plus (Fin a) (map Fin rs) = Fin (a + sum_list rs)"
  using assms
proof (induction rs arbitrary: a)
  case Nil then show ?case by simp
next
  case (Cons r rs)
  have r: "\<bar>r\<bar> \<le> M" using Cons.prems(1) by simp
  have M: "0 \<le> M" using r by linarith
  have len: "\<bar>a\<bar> + (real (length rs) * M + M) < overflow_limit"
    using Cons.prems(2) by (simp add: algebra_simps)
  have "0 \<le> real (length rs) * M" using M by simp
  then have "\<bar>a + r\<bar> < overflow_limit" using r len by linarith
  then have o: "overflow (Fin (a + r)) = Fin (a + r)" by (rule overflow_Fin)
  have "\<bar>a + r\<bar> + real (length rs) * M < overflow_limit" using r len by linarith
  then have "foldl js_plus (Fin (a + r)) (map Fin rs) = Fin (a + r + sum_list rs)"
    using Cons.IH[of "a + r"] Cons.prems(1) by simp
  moreover have "js_plus (Fin a) (Fin r) = Fin (a + r)"
    by (simp add: js_plus_def o del: overflow.simps)
  ultimately show ?case by (simp add: add.assoc)
qed

lemma sum_list_bounded: "\<forall>r\<in>set rs. \<bar>r\<bar> \<le> M \<Longrightarrow> \<bar>sum_list rs\<bar> \<le> real (length rs) * M"
proof (induction rs)
  case Nil then show ?case by simp
next
  case (Cons r rs)
  then have "\<bar>r\<bar> \<le> M" "\<bar>sum_list rs\<bar> \<le> real (length rs) * M" by simp_all
  then show ?case by (simp add: algebra_simps)
qed




subsection \<open>Batches with a mean that is not finite\<close>








lemma overflowing_mean:
  assumes "\<bar>h\<bar> < overflow_limit" "overflow_limit \<le> h + h"
  shows "js_over (js_total [Fin h, Fin h]) (Fin 2) = PInf"
proof -
  have a: "overflow (Fin h) = Fin h" using assms(1) by (rule overflow_Fin)
  have b: "overflow (Fin (h + h)) = PInf" using assms(2) by (rule overflow_PInf)
  have "js_plus (Fin 0) (Fin h) = Fin h" by (simp add: js_plus_def a del: overflow.simps)
  moreover have "js_plus (Fin h) (Fin h) = PInf" unfolding js_plus_def js_add.simps by (rule b)
  ultimately have "js_total [Fin h, Fin h] = PInf"
    by (simp add: js_total_def)
  then show ?thesis by (simp add: js_over_def)
qed


text \<open>It also fails on a batch of finite values whose sum overflows: two entries with a
  cracking time of \<open>2^1023\<close> years.\<close>

lemma compare_overflowing_sum:
  "\<exists>c. compareApproaches 2 [heavy_entry, heavy_entry] [heavy_entry, heavy_entry] = Inr c \<and>
       difference (timeComparison (comparison c)) = NaN"
proof -
  have "length [heavy_entry, heavy_entry] \<le> 2" by simp
  from compare_self[OF this] obtain c where
    c: "compareApproaches 2 [heavy_entry, heavy_entry] [heavy_entry, heavy_entry] = Inr c"
    and d: "difference (timeComparison (comparison c)) =
       (if is_finite (js_over (js_total (map (\<lambda>p. years (timeToCrack p)) [heavy_entry, heavy_entry]))
                              (Fin (real (length [heavy_entry, heavy_entry]))))
        then Fin 0 else NaN)"
    by blast
  define h :: real where "h = 2 ^ 1023"
  have h: "\<bar>h\<bar> < overflow_limit" "overflow_limit \<le> h + h"
    by (simp_all add: h_def overflow_limit_def)
  have m: "map (\<lambda>p. years (timeToCrack p)) [heavy_entry, heavy_entry] = [Fin h, Fin h]"
    by (simp add: heavy_entry_def h_def)
  have l: "real (length [heavy_entry, heavy_entry]) = 2" by simp
  have "difference (timeComparison (comparison c)) = NaN"
    unfolding d m l overflowing_mean[OF h] by (simp add: is_finite_def)
  then show ?thesis using c by blast
qed

section \<open>Numeric edge cases of the estimator and of the statistics\<close>

lemma entropy_nonempty:
  assumes "p \<noteq> []"
  shows "\<exists>x. calculateEntropy p = Fin x \<and> 0 \<le> x"
proof -
  have t: "10 \<le> theoreticalSize p"
  proof -
    obtain c cs where p: "p = c # cs" using assms by (cases p) auto
    have "re_lower c \<or> re_upper c \<or> re_digit c \<or> re_other c"
      by (auto simp: re_other_def)
    then have "list_ex re_lower p \<or> list_ex re_upper p \<or> list_ex re_digit p \<or> list_ex re_other p"
      unfolding p by auto
    then show ?thesis by (auto simp: theoreticalSize_def)
  qed
  have sz: "getCharacterSetSizeFromPassword p = card (set p)"
    by (simp add: getCharacterSetSizeFromPassword_def length_remdups_card_conv)
  show ?thesis
  proof (cases "card (set p) < 26")
    case True
    have "calculateEntropy p = Fin (real (length p) * log 2 (max (real (card (set p))) (real (theoreticalSize p))))"
      using True t by (simp add: calculateEntropy_def sz Let_def max_def)
    moreover have "0 \<le> log 2 (max (real (card (set p))) (real (theoreticalSize p)))"
      using t by (intro zero_le_log_cancel_iff[THEN iffD2]) (auto simp: max_def)
    ultimately show ?thesis by simp
  next
    case False
    have "calculateEntropy p = Fin (real (length p) * log 2 (real (card (set p))))"
      using False by (simp add: calculateEntropy_def sz Let_def)
    moreover have "0 \<le> log 2 (real (card (set p)))"
      using False by (intro zero_le_log_cancel_iff[THEN iffD2]) auto
    ultimately show ?thesis by simp
  qed
qed

lemma is_finite_Fin: "is_finite (Fin a)"
  by (simp add: is_finite_def)

lemma statistics_single:
  assumes e: "\<bar>e\<bar> < overflow_limit" and n: "1 \<le> maxArguments"
  shows "calculateEntropyStatistics maxArguments [Fin e] =
     Inr \<lparr> es_average = Fin e, es_median = Fin e, es_min = Fin e, es_max = Fin e,
           es_standardDeviation = Fin 0,
           es_above60Bits = (if 60 \<le> e then 1 else 0),
           es_above60BitsPercentage = (if 60 \<le> e then Fin 100 else Fin 0) \<rparr>"
proof -
  have o: "overflow (Fin e) = Fin e" using e by (rule overflow_Fin)
  have z: "overflow (Fin 0) = Fin 0" "overflow (Fin 1) = Fin 1" "overflow (Fin 100) = Fin 100"
    by (simp_all add: overflow_small del: overflow.simps)
  have total: "js_total [Fin e] = Fin e"
    by (simp add: js_total_def js_plus_def o del: overflow.simps)
  have avg: "js_over (js_total [Fin e]) (Fin 1) = Fin e"
    by (simp add: total js_over_def o del: overflow.simps)
  have med: "median_of [Fin e] = Fin e"
    by (simp add: median_of_def js_sort_def js_nth_def)
  have dif: "js_minus (Fin e) (Fin e) = Fin 0"
    by (simp add: js_minus_def js_sub_def z del: overflow.simps)
  have sq: "js_pow (Fin 0) (Fin 2) = Fin 0" by simp
  have tot0: "js_total [Fin 0] = Fin 0"
    by (simp add: js_total_def js_plus_def z del: overflow.simps)
  have var: "js_over (Fin 0) (Fin 1) = Fin 0"
    by (simp add: js_over_def z del: overflow.simps)
  have dev: "calculateStandardDeviation [Fin e] = Fin 0"
    unfolding calculateStandardDeviation_def Let_def
    by (simp only: list.map list.size length_Cons of_nat_1 One_nat_def[symmetric] add_0 avg dif sq tot0 var)
       simp
  have pct: "js_times (js_over (Fin (real (length (filter (\<lambda>x. js_ge x (Fin 60)) [Fin e])))) (Fin 1)) (Fin 100)
             = (if 60 \<le> e then Fin 100 else Fin 0)"
    by (simp add: js_times_def js_over_def z del: overflow.simps)
  show ?thesis
    using n avg med dev pct
    by (simp add: calculateEntropyStatistics_def math_min_def math_max_def Let_def del: overflow.simps)
qed

lemma statistics_empty:
  "calculateEntropyStatistics maxArguments [] =
     Inr \<lparr> es_average = NaN, es_median = NaN, es_min = PInf, es_max = NInf,
           es_standardDeviation = NaN, es_above60Bits = 0, es_above60BitsPercentage = NaN \<rparr>"
  by (simp add: calculateEntropyStatistics_def math_min_def math_max_def Let_def js_total_def js_over_def
      js_times_def js_plus_def median_of_def js_sort_def js_nth_def calculateStandardDeviation_def)

lemma statistics_range_error:
  "maxArguments < length es \<Longrightarrow> calculateEntropyStatistics maxArguments es = Inl RangeError"
  by (simp add: calculateEntropyStatistics_def math_min_def Let_def)

lemma finite_values: "list_all is_finite xs \<Longrightarrow> \<exists>rs. xs = map Fin rs"
proof (induction xs)
  case Nil then show ?case by simp
next
  case (Cons x xs)
  then obtain r rs where "x = Fin r" "xs = map Fin rs"
    by (cases x) (auto simp: is_finite_def)
  then show ?case by (intro exI[of _ "r # rs"]) simp
qed

lemma js_plus_not_NaN: "x \<noteq> NaN \<Longrightarrow> js_plus x (Fin b) \<noteq> NaN"
  by (cases x) (simp_all add: js_plus_def overflow_NaN_iff del: overflow.simps)

lemma js_total_not_NaN: "js_total (map Fin rs) \<noteq> NaN"
proof -
  have "x \<noteq> NaN \<Longrightarrow> foldl js_plus x (map Fin rs) \<noteq> NaN" for x
    by (induction rs arbitrary: x) (simp_all add: js_plus_not_NaN)
  then show ?thesis by (simp add: js_total_def)
qed

lemma js_over_not_NaN: "x \<noteq> NaN \<Longrightarrow> 0 < n \<Longrightarrow> js_over x (Fin n) \<noteq> NaN"
  by (cases x) (simp_all add: js_over_def overflow_NaN_iff del: overflow.simps)

lemma average_not_NaN:
  "rs \<noteq> [] \<Longrightarrow> js_over (js_total (map Fin rs)) (Fin (real (length (map Fin rs)))) \<noteq> NaN"
  by (intro js_over_not_NaN js_total_not_NaN) simp

lemma js_insort_Fin: "\<exists>zs. js_insort (Fin x) (map Fin ys) = map Fin zs \<and> length zs = Suc (length ys)"
proof (induction ys)
  case Nil
  show ?case by (intro exI[of _ "[x]"]) simp
next
  case (Cons y ys)
  then obtain zs where zs: "js_insort (Fin x) (map Fin ys) = map Fin zs" "length zs = Suc (length ys)"
    by blast
  show ?case
  proof (cases "js_gt (js_minus (Fin x) (Fin y)) (Fin 0)")
    case True
    then show ?thesis using zs by (intro exI[of _ "y # zs"]) simp
  next
    case False
    then show ?thesis by (intro exI[of _ "x # y # ys"]) simp
  qed
qed

lemma js_sort_Fin: "\<exists>zs. js_sort (map Fin rs) = map Fin zs \<and> length zs = length rs"
proof (induction rs)
  case Nil
  show ?case by (simp add: js_sort_def)
next
  case (Cons r rs)
  then obtain zs where zs: "js_sort (map Fin rs) = map Fin zs" "length zs = length rs"
    by blast
  obtain ws where "js_insort (Fin r) (map Fin zs) = map Fin ws" "length ws = Suc (length zs)"
    using js_insort_Fin by blast
  then show ?case using zs by (intro exI[of _ ws]) (simp add: js_sort_def)
qed

lemma js_nth_Fin: "0 \<le> i \<Longrightarrow> i < int (length zs) \<Longrightarrow> js_nth (map Fin zs) i = Fin (zs ! nat i)"
  by (simp add: js_nth_def)

lemma median_not_NaN:
  assumes "rs \<noteq> []"
  shows "median_of (map Fin rs) \<noteq> NaN"
proof -
  obtain zs where zs: "js_sort (map Fin rs) = map Fin zs" "length zs = length rs"
    using js_sort_Fin by blast
  have n: "0 < length rs" using assms by simp
  show ?thesis
  proof (cases "length rs mod 2 = 0")
    case True
    then have "2 \<le> length rs" using n by presburger
    then have a: "0 \<le> int (length rs div 2) - 1" "int (length rs div 2) - 1 < int (length zs)"
      and b: "0 \<le> int (length rs div 2)" "int (length rs div 2) < int (length zs)"
      using zs(2) by auto
    have "js_plus (Fin (zs ! nat (int (length rs div 2) - 1))) (Fin (zs ! nat (int (length rs div 2)))) \<noteq> NaN"
      by (rule js_plus_not_NaN) simp
    then have "js_over (js_plus (Fin (zs ! nat (int (length rs div 2) - 1))) (Fin (zs ! nat (int (length rs div 2)))))
                 (Fin 2) \<noteq> NaN"
      by (rule js_over_not_NaN) simp
    then show ?thesis using True
      by (simp add: median_of_def Let_def zs(1) js_nth_Fin[OF a] js_nth_Fin[OF b])
  next
    case False
    have b: "0 \<le> int (length rs div 2)" "int (length rs div 2) < int (length zs)"
      using zs(2) n by auto
    show ?thesis using False
      by (simp add: median_of_def Let_def zs(1) js_nth_Fin[OF b])
  qed
qed

lemma min_finite: "rs \<noteq> [] \<Longrightarrow> is_finite (foldl js_min PInf (map Fin rs))"
proof -
  have f: "\<exists>b. foldl js_min (Fin a) (map Fin xs) = Fin b" for a xs
    by (induction xs arbitrary: a) auto
  assume "rs \<noteq> []"
  then obtain r rs' where "rs = r # rs'" by (cases rs) auto
  then show ?thesis using f[of r rs'] by (auto simp: is_finite_def)
qed

lemma max_finite: "rs \<noteq> [] \<Longrightarrow> is_finite (foldl js_max NInf (map Fin rs))"
proof -
  have f: "\<exists>b. foldl js_max (Fin a) (map Fin xs) = Fin b" for a xs
    by (induction xs arbitrary: a) auto
  assume "rs \<noteq> []"
  then obtain r rs' where "rs = r # rs'" by (cases rs) auto
  then show ?thesis using f[of r rs'] by (auto simp: is_finite_def)
qed

lemma overflow_nonneg: "0 \<le> a \<Longrightarrow> nonneg_or_infinite (overflow (Fin a))"
  using overflow_limit_bounds(3) by (auto simp: nonneg_or_infinite_def)

lemma js_minus_not_NaN: "m \<noteq> NaN \<Longrightarrow> js_minus (Fin r) m \<noteq> NaN"
  by (cases m) (simp_all add: js_minus_def js_sub_def overflow_NaN_iff del: overflow.simps)

lemma square_nonneg: "d \<noteq> NaN \<Longrightarrow> nonneg_or_infinite (js_pow d (Fin 2))"
proof (cases d)
  case (Fin x)
  have f: "\<lfloor>2::real\<rfloor> = 2" by simp
  consider "x = 0" | "0 < x" | "x < 0" by linarith
  then show ?thesis
  proof cases
    case 1 then show ?thesis using Fin by (simp add: nonneg_or_infinite_def)
  next
    case 2
    have "nonneg_or_infinite (overflow (Fin (x powr 2)))" by (rule overflow_nonneg) simp
    then show ?thesis using Fin 2 by (simp del: overflow.simps)
  next
    case 3
    have "nonneg_or_infinite (overflow (Fin (x powi 2)))" by (rule overflow_nonneg) simp
    then show ?thesis using Fin 3 f by (simp del: overflow.simps)
  qed
next
  case PInf then show ?thesis by (simp add: nonneg_or_infinite_def)
next
  case NInf then show ?thesis by (simp add: nonneg_or_infinite_def is_odd_integer_def)
next
  case NaN
  assume "d \<noteq> NaN"
  then show ?thesis using NaN by simp
qed

lemma js_plus_nonneg: "nonneg_or_infinite x \<Longrightarrow> nonneg_or_infinite y \<Longrightarrow> nonneg_or_infinite (js_plus x y)"
proof -
  assume x: "nonneg_or_infinite x" and y: "nonneg_or_infinite y"
  show ?thesis
  proof (cases x)
    case (Fin a)
    show ?thesis
    proof (cases y)
      case (Fin b)
      have "0 \<le> a + b" using x y \<open>x = Fin a\<close> Fin by (simp add: nonneg_or_infinite_def)
      then have "nonneg_or_infinite (overflow (Fin (a + b)))" by (rule overflow_nonneg)
      then show ?thesis using \<open>x = Fin a\<close> Fin by (simp add: js_plus_def del: overflow.simps)
    qed (use y \<open>x = Fin a\<close> in \<open>simp_all add: js_plus_def nonneg_or_infinite_def\<close>)
  next
    case PInf
    then show ?thesis using y by (cases y) (simp_all add: js_plus_def nonneg_or_infinite_def)
  qed (use x in \<open>simp_all add: nonneg_or_infinite_def\<close>)
qed

lemma js_total_nonneg: "list_all nonneg_or_infinite xs \<Longrightarrow> nonneg_or_infinite (js_total xs)"
proof -
  have "nonneg_or_infinite a \<Longrightarrow> list_all nonneg_or_infinite xs \<Longrightarrow> nonneg_or_infinite (foldl js_plus a xs)" for a
    by (induction xs arbitrary: a) (simp_all add: js_plus_nonneg)
  moreover have "nonneg_or_infinite (Fin 0)" by (simp add: nonneg_or_infinite_def)
  moreover assume "list_all nonneg_or_infinite xs"
  ultimately show ?thesis by (simp add: js_total_def)
qed

lemma js_over_nonneg: "nonneg_or_infinite x \<Longrightarrow> 0 < n \<Longrightarrow> nonneg_or_infinite (js_over x (Fin n))"
proof (cases x)
  case (Fin a)
  assume "nonneg_or_infinite x" "0 < n"
  then have "0 \<le> a / n" using Fin by (simp add: nonneg_or_infinite_def)
  then have "nonneg_or_infinite (overflow (Fin (a / n)))" by (rule overflow_nonneg)
  then show ?thesis using Fin \<open>0 < n\<close> by (simp add: js_over_def del: overflow.simps)
qed (simp_all add: js_over_def nonneg_or_infinite_def)

lemma js_sqrt_nonneg: "nonneg_or_infinite x \<Longrightarrow> nonneg_or_infinite (js_sqrt x)"
  by (cases x) (auto simp: nonneg_or_infinite_def)

lemma deviation_nonneg:
  assumes "rs \<noteq> []"
  shows "nonneg_or_infinite (calculateStandardDeviation (map Fin rs))"
proof -
  define m where "m = js_over (js_total (map Fin rs)) (Fin (real (length (map Fin rs))))"
  have m: "m \<noteq> NaN" unfolding m_def using assms by (rule average_not_NaN)
  have "list_all nonneg_or_infinite (map (\<lambda>val. js_pow (js_minus val m) (Fin 2)) (map Fin rs))"
    using m by (simp add: list_all_iff square_nonneg js_minus_not_NaN del: js_pow.simps)
  then have "nonneg_or_infinite (js_total (map (\<lambda>val. js_pow (js_minus val m) (Fin 2)) (map Fin rs)))"
    by (rule js_total_nonneg)
  then have "nonneg_or_infinite (js_over (js_total (map (\<lambda>val. js_pow (js_minus val m) (Fin 2)) (map Fin rs)))
                (Fin (real (length (map Fin rs)))))"
    using assms by (intro js_over_nonneg) simp_all
  then show ?thesis
    unfolding calculateStandardDeviation_def Let_def m_def by (rule js_sqrt_nonneg)
qed

lemma percentage_finite:
  assumes "k \<le> n" "0 < n"
  shows "is_finite (js_times (js_over (Fin (real k)) (Fin (real n))) (Fin 100))"
proof -
  define x where "x = real k / real n"
  have q: "x \<le> 1" "0 \<le> x" using assms by (simp_all add: x_def)
  then have "\<bar>x\<bar> \<le> 2 ^ 1023" by simp
  then have o1: "overflow (Fin x) = Fin x" by (rule overflow_small)
  have "x * 100 \<le> 100" "0 \<le> x * 100" using q by linarith+
  then have "\<bar>x * 100\<bar> \<le> 2 ^ 1023" by simp
  then have o2: "overflow (Fin (x * 100)) = Fin (x * 100)" by (rule overflow_small)
  have "js_over (Fin (real k)) (Fin (real n)) = Fin x"
    using assms o1 by (simp add: js_over_def x_def del: overflow.simps)
  then have "js_times (js_over (Fin (real k)) (Fin (real n))) (Fin 100) = Fin (x * 100)"
    using o2 by (simp add: js_times_def del: overflow.simps)
  then show ?thesis by (simp add: is_finite_def)
qed

lemma statistics_not_NaN:
  assumes ne: "es \<noteq> []" and fin: "list_all is_finite es" and len: "length es \<le> maxArguments"
  shows "\<exists>s. calculateEntropyStatistics maxArguments es = Inr s \<and>
           es_average s \<noteq> NaN \<and> es_median s \<noteq> NaN \<and> is_finite (es_min s) \<and> is_finite (es_max s) \<and>
           nonneg_or_infinite (es_standardDeviation s) \<and> is_finite (es_above60BitsPercentage s)"
proof -
  obtain rs where rs: "es = map Fin rs" using finite_values[OF fin] by blast
  have r: "rs \<noteq> []" using ne rs by auto
  have n: "0 < length rs" using r by simp
  have p: "is_finite (js_times (js_over (Fin (real (length (filter (\<lambda>e. js_ge e (Fin 60)) (map Fin rs)))))
                                        (Fin (real (length (map Fin rs))))) (Fin 100))"
  proof (rule percentage_finite)
    have "length (filter (\<lambda>e. js_ge e (Fin 60)) (map Fin rs)) \<le> length (map Fin rs)"
      by (rule length_filter_le)
    then show "length (filter (\<lambda>e. js_ge e (Fin 60)) (map Fin rs)) \<le> length (map Fin rs)" .
    show "0 < length (map Fin rs)" using n by simp
  qed
  show ?thesis
    using len average_not_NaN[OF r] median_not_NaN[OF r] min_finite[OF r] max_finite[OF r]
          deviation_nonneg[OF r] p
    unfolding rs
    by (simp add: calculateEntropyStatistics_def math_min_def math_max_def Let_def)
qed

lemma count_bounds:
  assumes "rs \<noteq> []" "length rs \<le> 2 ^ 32"
  shows "1 \<le> real (length rs)" "real (length rs) \<le> 2 ^ 32"
proof -
  have "1 \<le> length rs" using assms(1) by (cases rs) simp_all
  then have "real 1 \<le> real (length rs)" by (rule of_nat_mono)
  then show "1 \<le> real (length rs)" by simp
  have "real (length rs) \<le> real (2 ^ 32)" using assms(2) by (rule of_nat_mono)
  then show "real (length rs) \<le> 2 ^ 32" by simp
qed

lemma total_value:
  assumes r: "\<forall>r\<in>set rs. \<bar>r\<bar> \<le> M" and M: "M \<le> 2 ^ 990" and len: "length rs \<le> 2 ^ 32"
  shows "js_total (map Fin rs) = Fin (sum_list rs)" "\<bar>sum_list rs\<bar> \<le> real (length rs) * M"
proof -
  show s: "\<bar>sum_list rs\<bar> \<le> real (length rs) * M" using r by (rule sum_list_bounded)
  have n: "real (length rs) \<le> 2 ^ 32"
  proof -
    have "real (length rs) \<le> real (2 ^ 32)" using len by (rule of_nat_mono)
    then show ?thesis by simp
  qed
  have "real (length rs) * M \<le> real (length rs) * 2 ^ 990" using M by (intro mult_left_mono) simp_all
  also have "\<dots> \<le> 2 ^ 32 * (2 ^ 990 :: real)" using n by (intro mult_right_mono) simp_all
  also have "\<dots> = 2 ^ 1022" by (simp add: power_add[symmetric])
  also have "\<dots> < overflow_limit"
  proof -
    have "(2::real) ^ 1022 < 2 ^ 1023" by (rule power_strict_increasing) simp_all
    then show ?thesis using overflow_limit_bounds(1) by linarith
  qed
  finally have "\<bar>0::real\<bar> + real (length rs) * M < overflow_limit" by simp
  then show "js_total (map Fin rs) = Fin (sum_list rs)"
    using foldl_plus_bounded[OF r, of 0] by (simp add: js_total_def)
qed

lemma over_count:
  assumes n: "1 \<le> n" and a: "\<bar>a\<bar> < overflow_limit"
  shows "js_over (Fin a) (Fin n) = Fin (a / n)" "\<bar>a / n\<bar> \<le> \<bar>a\<bar>"
proof -
  have "\<bar>a / n\<bar> = \<bar>a\<bar> / n" using n by simp
  also have "\<dots> \<le> \<bar>a\<bar>"
  proof -
    have "\<bar>a\<bar> * 1 \<le> \<bar>a\<bar> * n" using n by (intro mult_left_mono) simp_all
    then show ?thesis using n by (simp add: divide_le_eq)
  qed
  finally show le: "\<bar>a / n\<bar> \<le> \<bar>a\<bar>" .
  then have "\<bar>a / n\<bar> < overflow_limit" using a by linarith
  then have "overflow (Fin (a / n)) = Fin (a / n)" by (rule overflow_Fin)
  then show "js_over (Fin a) (Fin n) = Fin (a / n)"
    using n by (simp add: js_over_def del: overflow.simps)
qed

lemma mean_value:
  assumes ne: "rs \<noteq> []" and r: "\<forall>r\<in>set rs. \<bar>r\<bar> \<le> M" and M: "M \<le> 2 ^ 960" and len: "length rs \<le> 2 ^ 32"
  shows "\<exists>m. js_over (js_total (map Fin rs)) (Fin (real (length rs))) = Fin m \<and> \<bar>m\<bar> \<le> M"
proof -
  define n where "n = real (length rs)"
  have n: "1 \<le> n" "n \<le> 2 ^ 32" using count_bounds[OF ne len] by (simp_all add: n_def)
  have M0: "0 \<le> M" using ne r by (cases rs) auto
  have M': "M \<le> 2 ^ 990"
  proof -
    have "(2::real) ^ 960 \<le> 2 ^ 990" by (rule power_increasing) simp_all
    then show ?thesis using M by linarith
  qed
  have tot: "js_total (map Fin rs) = Fin (sum_list rs)" and s: "\<bar>sum_list rs\<bar> \<le> n * M"
    using total_value[OF r M' len] by (simp_all add: n_def)
  have "n * M \<le> 2 ^ 32 * M" using n(2) M0 by (intro mult_right_mono) simp_all
  also have "\<dots> \<le> 2 ^ 32 * (2 ^ 960 :: real)" using M by (intro mult_left_mono) simp_all
  also have "\<dots> = 2 ^ 992" by (simp add: power_add[symmetric])
  also have "\<dots> < overflow_limit"
  proof -
    have "(2::real) ^ 992 < 2 ^ 1023" by (rule power_strict_increasing) simp_all
    then show ?thesis using overflow_limit_bounds(1) by linarith
  qed
  finally have "\<bar>sum_list rs\<bar> < overflow_limit" using s by linarith
  note o = over_count[OF n(1) this]
  have "\<bar>sum_list rs / n\<bar> = \<bar>sum_list rs\<bar> / n" using n by simp
  also have "\<dots> \<le> n * M / n" using s n by (intro divide_right_mono) simp_all
  also have "\<dots> = M" using n by simp
  finally have "\<bar>sum_list rs / n\<bar> \<le> M" .
  then show ?thesis using o(1) unfolding tot n_def by blast
qed

lemma js_insort_values:
  "\<exists>zs. js_insort (Fin x) (map Fin ys) = map Fin zs \<and> length zs = Suc (length ys) \<and> set zs = insert x (set ys)"
proof (induction ys)
  case Nil
  show ?case by (intro exI[of _ "[x]"]) simp
next
  case (Cons y ys)
  then obtain zs where zs: "js_insort (Fin x) (map Fin ys) = map Fin zs" "length zs = Suc (length ys)"
      "set zs = insert x (set ys)"
    by blast
  show ?case
  proof (cases "js_gt (js_minus (Fin x) (Fin y)) (Fin 0)")
    case True
    then show ?thesis using zs by (intro exI[of _ "y # zs"]) auto
  next
    case False
    then show ?thesis by (intro exI[of _ "x # y # ys"]) simp
  qed
qed

lemma js_sort_values: "\<exists>zs. js_sort (map Fin rs) = map Fin zs \<and> length zs = length rs \<and> set zs = set rs"
proof (induction rs)
  case Nil
  show ?case by (simp add: js_sort_def)
next
  case (Cons r rs)
  then obtain zs where zs: "js_sort (map Fin rs) = map Fin zs" "length zs = length rs" "set zs = set rs"
    by blast
  obtain ws where "js_insort (Fin r) (map Fin zs) = map Fin ws" "length ws = Suc (length zs)"
      "set ws = insert r (set zs)"
    using js_insort_values by blast
  then show ?case using zs by (intro exI[of _ ws]) (simp add: js_sort_def)
qed

lemma median_bounded:
  assumes ne: "rs \<noteq> []" and r: "\<forall>r\<in>set rs. \<bar>r\<bar> \<le> M" and M: "M \<le> 2 ^ 960"
  shows "is_finite (median_of (map Fin rs))"
proof -
  obtain zs where zs: "js_sort (map Fin rs) = map Fin zs" "length zs = length rs" "set zs = set rs"
    using js_sort_values by blast
  have n: "0 < length rs" using ne by simp
  show ?thesis
  proof (cases "length rs mod 2 = 0")
    case True
    then have "2 \<le> length rs" using n by presburger
    then have a: "0 \<le> int (length rs div 2) - 1" "int (length rs div 2) - 1 < int (length zs)"
      and b: "0 \<le> int (length rs div 2)" "int (length rs div 2) < int (length zs)"
      using zs(2) by auto
    define u where "u = zs ! nat (int (length rs div 2) - 1)"
    define v where "v = zs ! nat (int (length rs div 2))"
    have "u \<in> set zs" "v \<in> set zs" using a b unfolding u_def v_def by (auto intro!: nth_mem)
    then have uv: "\<bar>u\<bar> \<le> M" "\<bar>v\<bar> \<le> M" using r zs(3) by auto
    have "(2::real) ^ 960 + 2 ^ 960 < 2 ^ 1023"
    proof -
      have "(2::real) ^ 960 + 2 ^ 960 = 2 ^ 961" by simp
      also have "\<dots> < 2 ^ 1023" by (rule power_strict_increasing) simp_all
      finally show ?thesis .
    qed
    then have s: "\<bar>u + v\<bar> < overflow_limit" using uv M overflow_limit_bounds(1) by linarith
    then have p: "js_plus (Fin u) (Fin v) = Fin (u + v)"
      by (simp add: js_plus_def overflow_Fin del: overflow.simps)
    have q: "js_over (Fin (u + v)) (Fin 2) = Fin ((u + v) / 2)"
      using over_count(1)[of 2 "u + v"] s by simp
    have na: "js_nth (map Fin zs) (int (length rs div 2) - 1) = Fin u"
      using js_nth_Fin[OF a] by (simp add: u_def)
    have nb: "js_nth (map Fin zs) (int (length rs div 2)) = Fin v"
      using js_nth_Fin[OF b] by (simp add: v_def)
    have "median_of (map Fin rs) = Fin ((u + v) / 2)"
      unfolding median_of_def Let_def zs(1) length_map using True by (simp only: na nb p q) simp
    then show ?thesis by (simp add: is_finite_def)
  next
    case False
    have b: "0 \<le> int (length rs div 2)" "int (length rs div 2) < int (length zs)"
      using zs(2) n by auto
    show ?thesis using False
      by (simp add: median_of_def Let_def zs(1) js_nth_Fin[OF b] is_finite_def)
  qed
qed

lemma js_square: "js_pow (Fin d) (Fin 2) = overflow (Fin (d\<^sup>2))"
proof -
  have f: "\<lfloor>2::real\<rfloor> = 2" by simp
  have z: "overflow (Fin 0) = Fin 0" by (rule overflow_small) simp
  consider "d = 0" | "0 < d" | "d < 0" by linarith
  then show ?thesis
  proof cases
    case 1 then show ?thesis using z by (simp del: overflow.simps)
  next
    case 2
    then have "d powr 2 = d\<^sup>2" by simp
    then show ?thesis using 2 by (simp del: overflow.simps)
  next
    case 3
    have "d powi 2 = d\<^sup>2" by simp
    then show ?thesis using 3 f by (simp del: overflow.simps)
  qed
qed

lemma deviation_bounded:
  assumes ne: "rs \<noteq> []" and r: "\<forall>r\<in>set rs. \<bar>r\<bar> \<le> 2 ^ 480" and len: "length rs \<le> 2 ^ 32"
  shows "is_finite (calculateStandardDeviation (map Fin rs))"
proof -
  define n where "n = real (length rs)"
  have n: "1 \<le> n" using count_bounds[OF ne len] by (simp add: n_def)
  have M: "(2::real) ^ 480 \<le> 2 ^ 960" by (rule power_increasing) simp_all
  obtain m where m: "js_over (js_total (map Fin rs)) (Fin (real (length rs))) = Fin m" and mb: "\<bar>m\<bar> \<le> 2 ^ 480"
    using mean_value[OF ne r M len] by blast
  have h: "(2::real) ^ 480 + 2 ^ 480 = 2 ^ 481" by simp
  have d: "\<bar>x - m\<bar> \<le> 2 ^ 481" if "x \<in> set rs" for x
    using r that mb h by (smt (verit, best))
  have lim481: "(2::real) ^ 481 < overflow_limit"
  proof -
    have "(2::real) ^ 481 < 2 ^ 1023" by (rule power_strict_increasing) simp_all
    then show ?thesis using overflow_limit_bounds(1) by linarith
  qed
  have sq: "(x - m)\<^sup>2 \<le> 2 ^ 962" if "x \<in> set rs" for x
  proof -
    have "(x - m)\<^sup>2 = \<bar>x - m\<bar>\<^sup>2" by simp
    also have "\<dots> \<le> (2 ^ 481)\<^sup>2" using d[OF that] by (intro power_mono) simp_all
    also have "\<dots> = (2::real) ^ 962" by (simp add: power_mult[symmetric])
    finally show ?thesis .
  qed
  have lim962: "(2::real) ^ 962 < overflow_limit"
  proof -
    have "(2::real) ^ 962 < 2 ^ 1023" by (rule power_strict_increasing) simp_all
    then show ?thesis using overflow_limit_bounds(1) by linarith
  qed
  have sq_term: "js_pow (js_minus (Fin x) (Fin m)) (Fin 2) = Fin ((x - m)\<^sup>2)" if "x \<in> set rs" for x
  proof -
    have "\<bar>x - m\<bar> < overflow_limit" using d[OF that] lim481 by linarith
    then have "js_minus (Fin x) (Fin m) = Fin (x - m)"
      by (simp add: js_minus_def js_sub_def overflow_Fin del: overflow.simps)
    moreover have "\<bar>(x - m)\<^sup>2\<bar> < overflow_limit" using sq[OF that] lim962 by simp
    ultimately show ?thesis by (simp add: js_square overflow_Fin del: overflow.simps js_pow.simps)
  qed
  have terms: "map (\<lambda>val. js_pow (js_minus val (Fin m)) (Fin 2)) (map Fin rs) = map Fin (map (\<lambda>x. (x - m)\<^sup>2) rs)"
    using sq_term by (simp del: js_pow.simps)
  have b: "\<forall>q\<in>set (map (\<lambda>x. (x - m)\<^sup>2) rs). \<bar>q\<bar> \<le> 2 ^ 962" using sq by auto
  have M2: "(2::real) ^ 962 \<le> 2 ^ 990" by (rule power_increasing) simp_all
  have len2: "length (map (\<lambda>x. (x - m)\<^sup>2) rs) \<le> 2 ^ 32" using len by simp
  define v where "v = sum_list (map (\<lambda>x. (x - m)\<^sup>2) rs)"
  have tot: "js_total (map Fin (map (\<lambda>x. (x - m)\<^sup>2) rs)) = Fin v"
    and vb: "\<bar>v\<bar> \<le> n * 2 ^ 962"
    using total_value[OF b M2 len2] by (simp_all add: v_def n_def)
  have v0: "0 \<le> v" unfolding v_def by (intro sum_list_nonneg) auto
  have "n * 2 ^ 962 \<le> 2 ^ 32 * (2 ^ 962 :: real)"
    using count_bounds(2)[OF ne len] by (intro mult_right_mono) (simp_all add: n_def)
  also have "\<dots> = 2 ^ 994" by (simp add: power_add[symmetric])
  also have "\<dots> < overflow_limit"
  proof -
    have "(2::real) ^ 994 < 2 ^ 1023" by (rule power_strict_increasing) simp_all
    then show ?thesis using overflow_limit_bounds(1) by linarith
  qed
  finally have "\<bar>v\<bar> < overflow_limit" using vb by linarith
  then have var: "js_over (Fin v) (Fin n) = Fin (v / n)" using over_count(1)[OF n] by simp
  have "0 \<le> v / n" using v0 n by simp
  then have "js_sqrt (Fin (v / n)) = Fin (sqrt (v / n))" by simp
  moreover have m': "js_over (js_total (map Fin rs)) (Fin n) = Fin m" using m by (simp add: n_def)
  ultimately have "calculateStandardDeviation (map Fin rs) = Fin (sqrt (v / n))"
    unfolding calculateStandardDeviation_def Let_def length_map n_def[symmetric]
    by (simp only: m' terms tot var)
  then show ?thesis by (simp add: is_finite_def)
qed

lemma statistics_finite:
  assumes ne: "es \<noteq> []" and b: "list_all (bounded_by (2 ^ 480)) es"
    and len: "length es \<le> 2 ^ 32" and arg: "length es \<le> maxArguments"
  shows "\<exists>s. calculateEntropyStatistics maxArguments es = Inr s \<and>
           is_finite (es_average s) \<and> is_finite (es_median s) \<and> is_finite (es_min s) \<and>
           is_finite (es_max s) \<and> is_finite (es_standardDeviation s) \<and>
           is_finite (es_above60BitsPercentage s)"
proof -
  obtain rs where rs: "es = map Fin rs" and r: "\<forall>r\<in>set rs. \<bar>r\<bar> \<le> 2 ^ 480"
    using bounded_values[OF b] by blast
  have rn: "rs \<noteq> []" and rl: "length rs \<le> 2 ^ 32" using ne len rs by auto
  have M: "(2::real) ^ 480 \<le> 2 ^ 960" by (rule power_increasing) simp_all
  obtain m where m: "js_over (js_total (map Fin rs)) (Fin (real (length rs))) = Fin m"
    using mean_value[OF rn r M rl] by blast
  have p: "is_finite (js_times (js_over (Fin (real (length (filter (\<lambda>e. js_ge e (Fin 60)) (map Fin rs)))))
                                        (Fin (real (length (map Fin rs))))) (Fin 100))"
  proof (rule percentage_finite)
    show "length (filter (\<lambda>e. js_ge e (Fin 60)) (map Fin rs)) \<le> length (map Fin rs)"
      by (rule length_filter_le)
    show "0 < length (map Fin rs)" using rn by simp
  qed
  show ?thesis
    using arg m median_bounded[OF rn r M] min_finite[OF rn] max_finite[OF rn]
          deviation_bounded[OF rn r rl] p
    unfolding rs
    by (simp add: calculateEntropyStatistics_def math_min_def math_max_def Let_def is_finite_def)
qed

text \<open>
  C6 (as amended): \<open>calculateEntropy\<close> returns a finite number, at least zero, for
  every string that is not empty. The entropy statistics of a batch of one finite value
  \<open>e\<close> are: mean, median, minimum and maximum \<open>e\<close>, standard deviation zero,
  percentage 0 or 100. On every batch of finite values that is not empty and that
  \<open>Math.min\<close> and \<open>Math.max\<close> accept as their arguments, no statistic is \<open>NaN\<close>: the
  minimum, the maximum and the percentage are finite, the mean and the median are finite
  or infinite (a sum can overflow), the standard deviation is at least zero or
  \<open>Infinity\<close>; all six are finite when the batch has at most \<open>2^32\<close> values (no
  array is longer) of magnitude at most \<open>2^480\<close>. On a zero-length batch the mean, the
  median, the standard deviation and the percentage are \<open>NaN\<close>, the minimum is
  \<open>Infinity\<close> and the maximum is \<open>-Infinity\<close>. On a batch longer than the engine's
  limit on arguments the call throws a \<open>RangeError\<close>.
\<close>

theorem numeric_edge_cases:
  "(p \<noteq> [] \<longrightarrow> (\<exists>x. calculateEntropy p = Fin x \<and> 0 \<le> x)) \<and>
   (\<bar>e\<bar> < overflow_limit \<and> 1 \<le> maxArguments \<longrightarrow>
      calculateEntropyStatistics maxArguments [Fin e] =
        Inr \<lparr> es_average = Fin e, es_median = Fin e, es_min = Fin e, es_max = Fin e,
              es_standardDeviation = Fin 0,
              es_above60Bits = (if 60 \<le> e then 1 else 0),
              es_above60BitsPercentage = (if 60 \<le> e then Fin 100 else Fin 0) \<rparr>) \<and>
   (es \<noteq> [] \<and> list_all is_finite es \<and> length es \<le> maxArguments \<longrightarrow>
      (\<exists>s. calculateEntropyStatistics maxArguments es = Inr s \<and>
           es_average s \<noteq> NaN \<and> es_median s \<noteq> NaN \<and> is_finite (es_min s) \<and> is_finite (es_max s) \<and>
           nonneg_or_infinite (es_standardDeviation s) \<and> is_finite (es_above60BitsPercentage s))) \<and>
   (bs \<noteq> [] \<and> list_all (bounded_by (2 ^ 480)) bs \<and> length bs \<le> 2 ^ 32 \<and> length bs \<le> maxArguments \<longrightarrow>
      (\<exists>s. calculateEntropyStatistics maxArguments bs = Inr s \<and>
           is_finite (es_average s) \<and> is_finite (es_median s) \<and> is_finite (es_min s) \<and>
           is_finite (es_max s) \<and> is_finite (es_standardDeviation s) \<and>
           is_finite (es_above60BitsPercentage s))) \<and>
   calculateEntropyStatistics maxArguments [] =
     Inr \<lparr> es_average = NaN, es_median = NaN, es_min = PInf, es_max = NInf,
           es_standardDeviation = NaN, es_above60Bits = 0, es_above60BitsPercentage = NaN \<rparr> \<and>
   (maxArguments < length xs \<longrightarrow> calculateEntropyStatistics maxArguments xs = Inl RangeError)"
  using entropy_nonempty [of p] statistics_single [of e maxArguments] statistics_not_NaN [of es maxArguments]
        statistics_finite [of bs maxArguments]
        statistics_empty [of maxArguments] statistics_range_error [of maxArguments xs]
  by blast

theorem numeric_edge_cases_witness:
  "(\<exists>x. calculateEntropy ''aaaa'' = Fin x \<and> 0 \<le> x) \<and>
   calculateEntropyStatistics 2 [Fin 3] =
     Inr \<lparr> es_average = Fin 3, es_median = Fin 3, es_min = Fin 3, es_max = Fin 3,
           es_standardDeviation = Fin 0, es_above60Bits = 0, es_above60BitsPercentage = Fin 0 \<rparr> \<and>
   (\<exists>s. calculateEntropyStatistics 2 [Fin 3, Fin 1] = Inr s \<and>
        es_average s \<noteq> NaN \<and> es_median s \<noteq> NaN \<and> nonneg_or_infinite (es_standardDeviation s) \<and>
        is_finite (es_average s) \<and> is_finite (es_median s) \<and> is_finite (es_standardDeviation s)) \<and>
   calculateEntropyStatistics 2 [Fin 1, Fin 2, Fin 3] = Inl RangeError"
proof -
  have h1: "''aaaa'' \<noteq> []" by simp
  have h2: "\<bar>3::real\<bar> < overflow_limit \<and> (1::nat) \<le> 2" by (simp add: overflow_limit_def)
  have h3: "[Fin 3, Fin 1] \<noteq> [] \<and> list_all is_finite [Fin 3, Fin 1] \<and> length [Fin 3, Fin 1] \<le> 2"
    by (simp add: is_finite_def)
  have h4: "[Fin 3, Fin 1] \<noteq> [] \<and> list_all (bounded_by (2 ^ 480)) [Fin 3, Fin 1] \<and>
            length [Fin 3, Fin 1] \<le> 2 ^ 32 \<and> length [Fin 3, Fin 1] \<le> 2"
    by (simp add: bounded_by_def)
  have h5: "2 < length [Fin 1, Fin 2, Fin 3]" by simp
  from numeric_edge_cases [of "''aaaa''" 3 2 "[Fin 3, Fin 1]" "[Fin 3, Fin 1]" "[Fin 1, Fin 2, Fin 3]"]
       h1 h2 h3 h4 h5
  show ?thesis by auto
qed

text \<open>The claim as stated fails on the empty string: the distinct-character count
  and the theoretical size are both zero, \<open>Math.log2(0)\<close> is \<open>-Infinity\<close> and
  \<open>0 * -Infinity\<close> is \<open>NaN\<close>.\<close>

theorem entropy_of_empty_string_counterexample: "calculateEntropy [] = NaN"
  by (simp add: calculateEntropy_def getCharacterSetSizeFromPassword_def theoreticalSize_def)

end
